theory Spec2Isabelle
  imports Complex_Main "HOL-Library.AList" "HOL-Library.Product_Lexorder" "HOL-Library.Sublist"
begin

section \<open>The order matching engine of src/app/matcher.py\<close>

text \<open>
  The engine is the class \<open>MatchingEngine\<close>. Its methods mutate \<open>Order\<close> objects that
  are shared between the dictionary \<open>active_orders\<close> and the per-symbol lists of
  \<open>orders_by_symbol\<close>, so the model keeps an explicit object store: an order is referred
  to by its address, and the engine's containers hold addresses.

  Conventions of the embedding:
  \<^item> Python floats are idealised as exact reals (no rounding, no NaN, no infinities);
    the sort key \<open>x.price or float('inf')\<close> is modelled by a flag that sorts the
    orders without a price after all the others. Comparisons, \<open>min\<close> and negation are
    exact on floats as well; sums, differences, products and quotients are rounded by
    the program and exact here. The general statements below compare and select
    values; the one that contains arithmetic, the change percentage of the market
    data, is the source's expression read over the reals, and none is about
    accumulated quantities.
  \<^item> \<open>datetime\<close> values are integers; every method that reads the clock takes the
    reading \<open>now\<close> as an argument.
  \<^item> An exception is the value \<open>Inl (e, s)\<close>, where \<open>s\<close> is the state at the moment
    the exception is raised (what the method had already mutated stays mutated).
  \<^item> matcher.py spells the enumeration members in upper case (\<open>OrderStatus.PENDING\<close>),
    models.py in capitalised form (\<open>Pending\<close>); they are the same members here.
  \<^item> Logging is omitted.
\<close>

subsection \<open>Data model (src/app/models.py)\<close>

datatype OrderType = LIMIT | MARKET | STOP

datatype OrderSide = BUY | SELL

datatype OrderStatus = PENDING | PARTIAL | FILLED | CANCELLED | REJECTED

datatype py_error = KeyError | TypeError | ZeroDivisionError

type_synonym timestamp = int

type_synonym addr = nat

record Order =
  oid :: string
  symbol :: string
  side :: OrderSide
  order_type :: OrderType
  quantity :: real
  price :: "real option"
  stop_price :: "real option"
  status :: OrderStatus
  filled_quantity :: real
  average_price :: "real option"
  created_at :: timestamp
  updated_at :: timestamp
  user_id :: string
  client_order_id :: string

text \<open>
  Modelled from the spec: the classes \<open>Trade\<close>, \<open>OrderBook\<close> and \<open>MarketData\<close> are
  imported by matcher.py but are not declared in models.py. Their fields are the keyword
  arguments and attributes that matcher.py uses, with the timestamps of the spec's data
  model. A price level, in the source a dictionary with the keys \<open>price\<close> and
  \<open>quantity\<close>, is a pair. No validation is attached to their constructors.
\<close>

record Trade =
  t_symbol :: string
  buy_order_id :: string
  sell_order_id :: string
  buyer_id :: string
  seller_id :: string
  t_quantity :: real
  t_price :: "real option"
  t_timestamp :: timestamp

record OrderBook =
  ob_symbol :: string
  bids :: "(real \<times> real) list"
  asks :: "(real \<times> real) list"
  last_updated :: timestamp

record MarketData =
  md_symbol :: string
  last_price :: "real option"
  bid :: real
  ask :: real
  volume_24h :: real
  change_24h :: real
  md_timestamp :: timestamp

text \<open>The value of \<open>orders_by_symbol[symbol]\<close>: the two lists of resting orders.\<close>

record SymbolOrders =
  buy_orders :: "addr list"
  sell_orders :: "addr list"

text \<open>
  The engine: \<open>objects\<close> is the object store, the other fields are the attributes
  set by \<open>__init__\<close>. \<open>active_orders\<close> is an association list in insertion order,
  as a Python dictionary is; \<open>orders_by_symbol\<close> is a \<open>defaultdict\<close>, hence total.
\<close>

record engine =
  objects :: "addr \<Rightarrow> Order"
  order_books :: "string \<rightharpoonup> OrderBook"
  active_orders :: "(string \<times> addr) list"
  orders_by_symbol :: "string \<Rightarrow> SymbolOrders"
  trades :: "Trade list"
  market_data :: "string \<rightharpoonup> MarketData"

definition new_engine :: "(addr \<Rightarrow> Order) \<Rightarrow> engine" where
  "new_engine h = \<lparr>objects = h, order_books = Map.empty, active_orders = [],
     orders_by_symbol = (\<lambda>_. \<lparr>buy_orders = [], sell_orders = []\<rparr>),
     trades = [], market_data = Map.empty\<rparr>"

type_synonym 'a result = "py_error \<times> engine + 'a \<times> engine"

definition state_of :: "'a result \<Rightarrow> engine" where
  "state_of r = (case r of Inl (e, s) \<Rightarrow> s | Inr (x, s) \<Rightarrow> s)"

subsection \<open>Validation and price compatibility\<close>

text \<open>
  Python's truth value of an optional float: \<open>None\<close> and \<open>0.0\<close> are false. So
  \<open>not order.price or order.price <= 0\<close> is:
\<close>

definition price_invalid :: "real option \<Rightarrow> bool" where
  "price_invalid p = (case p of None \<Rightarrow> True | Some x \<Rightarrow> x = 0 \<or> x \<le> 0)"

definition validate_order :: "Order \<Rightarrow> bool" where
  "validate_order order =
     (if quantity order \<le> 0 then False
      else if order_type order = LIMIT \<and> price_invalid (price order) then False
      else True)"

definition price_matches :: "Order \<Rightarrow> Order \<Rightarrow> bool" where
  "price_matches buy_order sell_order =
     (if order_type buy_order = MARKET \<or> order_type sell_order = MARKET then True
      else (case (price buy_order, price sell_order) of
              (Some pb, Some ps) \<Rightarrow> if pb \<noteq> 0 \<and> ps \<noteq> 0 then pb \<ge> ps else False
            | _ \<Rightarrow> False))"

subsection \<open>Trade execution\<close>

definition update_order_after_trade ::
  "timestamp \<Rightarrow> engine \<Rightarrow> addr \<Rightarrow> real \<Rightarrow> real option \<Rightarrow> unit result" where
  "update_order_after_trade now s a trade_quantity trade_price =
     (let order = objects s a;
          o1 = order\<lparr>filled_quantity := filled_quantity order + trade_quantity\<rparr>;
          put = (\<lambda>x. s\<lparr>objects := (objects s)(a := x)\<rparr>);
          finish = (\<lambda>x. Inr ((), put (x\<lparr>status := (if filled_quantity x \<ge> quantity x
                                                   then FILLED else PARTIAL),
                                       updated_at := now\<rparr>)))
      in case average_price o1 of
           None \<Rightarrow> finish (o1\<lparr>average_price := trade_price\<rparr>)
         | Some avg \<Rightarrow>
             (case trade_price of
                None \<Rightarrow> Inl (TypeError, put o1)
              | Some p \<Rightarrow>
                  (let total_value = (filled_quantity o1 - trade_quantity) * avg
                                       + trade_quantity * p
                   in if filled_quantity o1 = 0 then Inl (ZeroDivisionError, put o1)
                      else finish (o1\<lparr>average_price :=
                                         Some (total_value / filled_quantity o1)\<rparr>))))"

definition trade_price_of :: "Order \<Rightarrow> Order \<Rightarrow> real option" where
  "trade_price_of buy_order sell_order =
     (if order_type buy_order = MARKET then price sell_order
      else if order_type sell_order = MARKET then price buy_order
      else if created_at buy_order < created_at sell_order then price buy_order
      else price sell_order)"

definition execute_trade ::
  "timestamp \<Rightarrow> engine \<Rightarrow> addr \<Rightarrow> addr \<Rightarrow> (Trade option) result" where
  "execute_trade now s b a =
     (let buy_order = objects s b; sell_order = objects s a;
          buy_remaining = quantity buy_order - filled_quantity buy_order;
          sell_remaining = quantity sell_order - filled_quantity sell_order;
          trade_quantity = min buy_remaining sell_remaining
      in if trade_quantity \<le> 0 then Inr (None, s)
         else
           (let trade_price = trade_price_of buy_order sell_order;
                trade = \<lparr>t_symbol = symbol buy_order, buy_order_id = oid buy_order,
                         sell_order_id = oid sell_order, buyer_id = user_id buy_order,
                         seller_id = user_id sell_order, t_quantity = trade_quantity,
                         t_price = trade_price, t_timestamp = now\<rparr>
            in case update_order_after_trade now s b trade_quantity trade_price of
                 Inl e \<Rightarrow> Inl e
               | Inr (u, s1) \<Rightarrow>
                   (case update_order_after_trade now s1 a trade_quantity trade_price of
                      Inl e \<Rightarrow> Inl e
                    | Inr (u', s2) \<Rightarrow> Inr (Some trade, s2))))"

subsection \<open>Matching\<close>

text \<open>
  The sort keys of the two \<open>sorted\<close> calls. \<open>(x.price or float('inf'), x.created_at)\<close>:
  the first component is a pair whose flag is set for the orders without a (nonzero)
  price, so that they compare equal to each other and greater than every price.
  \<open>(-(x.price or 0), x.created_at)\<close> is a pair of a real and a time. Pairs are ordered
  lexicographically, as Python's tuples are; \<open>sort_key\<close> is stable, as \<open>sorted\<close> is.
\<close>

definition ask_key :: "Order \<Rightarrow> (bool \<times> real) \<times> timestamp" where
  "ask_key x = ((case price x of None \<Rightarrow> (True, 0)
                 | Some p \<Rightarrow> if p = 0 then (True, 0) else (False, p)), created_at x)"

definition bid_key :: "Order \<Rightarrow> real \<times> timestamp" where
  "bid_key x = (- (case price x of None \<Rightarrow> 0 | Some p \<Rightarrow> p), created_at x)"

definition sell_candidates :: "engine \<Rightarrow> string \<Rightarrow> addr list" where
  "sell_candidates s symb =
     sort_key (\<lambda>a. ask_key (objects s a))
       (filter (\<lambda>a. status (objects s a) = PENDING) (sell_orders (orders_by_symbol s symb)))"

definition buy_candidates :: "engine \<Rightarrow> string \<Rightarrow> addr list" where
  "buy_candidates s symb =
     sort_key (\<lambda>a. bid_key (objects s a))
       (filter (\<lambda>a. status (objects s a) = PENDING) (buy_orders (orders_by_symbol s symb)))"

text \<open>The \<open>for\<close> loop of \<open>_match_buy_order\<close>, over the sorted list of sell orders.\<close>

fun match_buy_loop ::
  "timestamp \<Rightarrow> addr \<Rightarrow> addr list \<Rightarrow> Trade list \<Rightarrow> engine \<Rightarrow> (Trade list) result" where
  "match_buy_loop now b [] trs s = Inr (trs, s)"
| "match_buy_loop now b (a # rest) trs s =
     (if quantity (objects s b) - filled_quantity (objects s b) \<le> 0 then Inr (trs, s)
      else if \<not> price_matches (objects s b) (objects s a) then match_buy_loop now b rest trs s
      else (case execute_trade now s b a of
              Inl e \<Rightarrow> Inl e
            | Inr (None, s1) \<Rightarrow> match_buy_loop now b rest trs s1
            | Inr (Some t, s1) \<Rightarrow>
                match_buy_loop now b rest (trs @ [t]) (s1\<lparr>trades := trades s1 @ [t]\<rparr>)))"

definition match_buy_order :: "timestamp \<Rightarrow> engine \<Rightarrow> addr \<Rightarrow> (Trade list) result" where
  "match_buy_order now s b =
     match_buy_loop now b (sell_candidates s (symbol (objects s b))) [] s"

text \<open>The \<open>for\<close> loop of \<open>_match_sell_order\<close>, over the sorted list of buy orders.\<close>

fun match_sell_loop ::
  "timestamp \<Rightarrow> addr \<Rightarrow> addr list \<Rightarrow> Trade list \<Rightarrow> engine \<Rightarrow> (Trade list) result" where
  "match_sell_loop now a [] trs s = Inr (trs, s)"
| "match_sell_loop now a (b # rest) trs s =
     (if quantity (objects s a) - filled_quantity (objects s a) \<le> 0 then Inr (trs, s)
      else if \<not> price_matches (objects s b) (objects s a) then match_sell_loop now a rest trs s
      else (case execute_trade now s b a of
              Inl e \<Rightarrow> Inl e
            | Inr (None, s1) \<Rightarrow> match_sell_loop now a rest trs s1
            | Inr (Some t, s1) \<Rightarrow>
                match_sell_loop now a rest (trs @ [t]) (s1\<lparr>trades := trades s1 @ [t]\<rparr>)))"

definition match_sell_order :: "timestamp \<Rightarrow> engine \<Rightarrow> addr \<Rightarrow> (Trade list) result" where
  "match_sell_order now s a =
     match_sell_loop now a (buy_candidates s (symbol (objects s a))) [] s"

definition match_order :: "timestamp \<Rightarrow> engine \<Rightarrow> addr \<Rightarrow> (Trade list) result" where
  "match_order now s a =
     (case order_books s (symbol (objects s a)) of
        None \<Rightarrow> Inl (KeyError, s)
      | Some orderbook \<Rightarrow>
          if side (objects s a) = BUY then match_buy_order now s a
          else match_sell_order now s a)"

subsection \<open>The order book snapshot\<close>

text \<open>\<open>levels[price] += remaining\<close> on a \<open>defaultdict(float)\<close>.\<close>

definition add_level :: "real \<Rightarrow> real \<Rightarrow> (real \<times> real) list \<Rightarrow> (real \<times> real) list" where
  "add_level p remaining levels =
     AList.update p ((case map_of levels p of None \<Rightarrow> 0 | Some q \<Rightarrow> q) + remaining) levels"

fun aggregate_levels ::
  "(addr \<Rightarrow> Order) \<Rightarrow> addr list \<Rightarrow> (real \<times> real) list \<Rightarrow> (real \<times> real) list" where
  "aggregate_levels h [] levels = levels"
| "aggregate_levels h (a # rest) levels =
     (case price (h a) of
        None \<Rightarrow> aggregate_levels h rest levels
      | Some p \<Rightarrow>
          if status (h a) = PENDING \<and> p \<noteq> 0
          then aggregate_levels h rest
                 (add_level p (quantity (h a) - filled_quantity (h a)) levels)
          else aggregate_levels h rest levels)"

text \<open>
  The levels have pairwise different prices, so sorting the pairs is sorting by price;
  \<open>reverse=True\<close> of a list without equal keys is the reversed ascending list.
\<close>

definition snapshot_bids :: "engine \<Rightarrow> string \<Rightarrow> (real \<times> real) list" where
  "snapshot_bids s symb =
     rev (sort_key fst (aggregate_levels (objects s) (buy_orders (orders_by_symbol s symb)) []))"

definition snapshot_asks :: "engine \<Rightarrow> string \<Rightarrow> (real \<times> real) list" where
  "snapshot_asks s symb =
     sort_key fst (aggregate_levels (objects s) (sell_orders (orders_by_symbol s symb)) [])"

definition update_orderbook_snapshot :: "timestamp \<Rightarrow> engine \<Rightarrow> string \<Rightarrow> unit result" where
  "update_orderbook_snapshot now s symb =
     (case order_books s symb of
        None \<Rightarrow> Inl (KeyError, s)
      | Some orderbook \<Rightarrow>
          Inr ((), s\<lparr>order_books := (order_books s)(symb \<mapsto>
                        orderbook\<lparr>bids := snapshot_bids s symb, asks := snapshot_asks s symb,
                                  last_updated := now\<rparr>)\<rparr>))"

definition add_to_orderbook :: "timestamp \<Rightarrow> engine \<Rightarrow> addr \<Rightarrow> unit result" where
  "add_to_orderbook now s a =
     (let symb = symbol (objects s a); symbol_orders = orders_by_symbol s symb;
          s1 = s\<lparr>orders_by_symbol := (orders_by_symbol s)(symb :=
                  (if side (objects s a) = BUY
                   then symbol_orders\<lparr>buy_orders := buy_orders symbol_orders @ [a]\<rparr>
                   else symbol_orders\<lparr>sell_orders := sell_orders symbol_orders @ [a]\<rparr>))\<rparr>
      in update_orderbook_snapshot now s1 symb)"

definition remove_from_orderbook :: "timestamp \<Rightarrow> engine \<Rightarrow> addr \<Rightarrow> unit result" where
  "remove_from_orderbook now s a =
     (let symb = symbol (objects s a); symbol_orders = orders_by_symbol s symb;
          keep = (\<lambda>x. oid (objects s x) \<noteq> oid (objects s a));
          s1 = s\<lparr>orders_by_symbol := (orders_by_symbol s)(symb :=
                  (if side (objects s a) = BUY
                   then symbol_orders\<lparr>buy_orders := filter keep (buy_orders symbol_orders)\<rparr>
                   else symbol_orders\<lparr>sell_orders := filter keep (sell_orders symbol_orders)\<rparr>))\<rparr>
      in update_orderbook_snapshot now s1 symb)"

subsection \<open>Market data\<close>

definition update_market_data :: "timestamp \<Rightarrow> engine \<Rightarrow> string \<Rightarrow> Trade \<Rightarrow> unit result" where
  "update_market_data now s symb trade =
     (let md0 = (case market_data s symb of
                   None \<Rightarrow> \<lparr>md_symbol = symb, last_price = t_price trade, bid = 0, ask = 0,
                             volume_24h = 0, change_24h = 0, md_timestamp = now\<rparr>
                 | Some m \<Rightarrow> m);
          old_price = last_price md0;
          md1 = md0\<lparr>last_price := t_price trade\<rparr>;
          put = (\<lambda>m. s\<lparr>market_data := (market_data s)(symb \<mapsto> m)\<rparr>)
      in case order_books s symb of
           None \<Rightarrow> Inl (KeyError, put md1)
         | Some orderbook \<Rightarrow>
             (let md2 = (case bids orderbook of [] \<Rightarrow> md1 | l # _ \<Rightarrow> md1\<lparr>bid := fst l\<rparr>);
                  md3 = (case asks orderbook of [] \<Rightarrow> md2 | l # _ \<Rightarrow> md2\<lparr>ask := fst l\<rparr>)
              in case old_price of
                   None \<Rightarrow> Inl (TypeError, put md3)
                 | Some old \<Rightarrow>
                     if old > 0
                     then (case t_price trade of
                             None \<Rightarrow> Inl (TypeError, put md3)
                           | Some p \<Rightarrow>
                               Inr ((), put (md3\<lparr>change_24h := ((p - old) / old) * 100,
                                                 md_timestamp := now\<rparr>)))
                     else Inr ((), put (md3\<lparr>md_timestamp := now\<rparr>))))"

subsection \<open>The entry points\<close>

definition process_order :: "timestamp \<Rightarrow> engine \<Rightarrow> addr \<Rightarrow> (Trade list) result" where
  "process_order now s a =
     (let order = objects s a
      in if \<not> validate_order order
         then Inr ([], s\<lparr>objects := (objects s)(a := order\<lparr>status := REJECTED\<rparr>)\<rparr>)
         else
           (let s1 = (case order_books s (symbol order) of
                        None \<Rightarrow> s\<lparr>order_books := (order_books s)(symbol order \<mapsto>
                                     \<lparr>ob_symbol = symbol order, bids = [], asks = [],
                                      last_updated = now\<rparr>)\<rparr>
                      | Some orderbook \<Rightarrow> s);
                s2 = s1\<lparr>active_orders := AList.update (oid order) a (active_orders s1)\<rparr>
            in case match_order now s2 a of
                 Inl e \<Rightarrow> Inl e
               | Inr (trs, s3) \<Rightarrow>
                   (case (if status (objects s3 a) \<noteq> FILLED then add_to_orderbook now s3 a
                          else Inr ((), s3)) of
                      Inl e \<Rightarrow> Inl e
                    | Inr (u, s4) \<Rightarrow>
                        if trs \<noteq> []
                        then (case update_market_data now s4 (symbol (objects s4 a)) (last trs) of
                                Inl e \<Rightarrow> Inl e
                              | Inr (u', s5) \<Rightarrow> Inr (trs, s5))
                        else Inr (trs, s4))))"

definition cancel_order :: "timestamp \<Rightarrow> engine \<Rightarrow> string \<Rightarrow> string \<Rightarrow> bool result" where
  "cancel_order now s order_id uid =
     (case map_of (active_orders s) order_id of
        None \<Rightarrow> Inr (False, s)
      | Some a \<Rightarrow>
          (let order = objects s a
           in if user_id order \<noteq> uid then Inr (False, s)
              else if status order \<noteq> PENDING \<and> status order \<noteq> PARTIAL then Inr (False, s)
              else
                (let s1 = s\<lparr>objects := (objects s)(a := order\<lparr>status := CANCELLED,
                                                                  updated_at := now\<rparr>)\<rparr>
                 in case remove_from_orderbook now s1 a of
                      Inl e \<Rightarrow> Inl e
                    | Inr (u, s2) \<Rightarrow> Inr (True, s2))))"

definition get_order :: "engine \<Rightarrow> string \<Rightarrow> Order option" where
  "get_order s order_id = map_option (objects s) (map_of (active_orders s) order_id)"

definition get_user_orders :: "engine \<Rightarrow> string \<Rightarrow> Order list" where
  "get_user_orders s uid =
     filter (\<lambda>order. user_id order = uid) (map (\<lambda>(k, a). objects s a) (active_orders s))"

text \<open>
  A history of calls to the two mutating entry points. After an exception the caller
  goes on with the engine as the exception left it.
\<close>

datatype command = Submit timestamp addr | Cancel timestamp string string

fun step :: "engine \<Rightarrow> command \<Rightarrow> engine" where
  "step s (Submit now a) = state_of (process_order now s a)"
| "step s (Cancel now order_id uid) = state_of (cancel_order now s order_id uid)"

definition run :: "command list \<Rightarrow> engine \<Rightarrow> engine" where
  "run cmds s = foldl step s cmds"

subsection \<open>Notions used in the statements\<close>

text \<open>
  The fields of an order that no method of the engine assigns: two snapshots of the
  same order object agree on them.
\<close>

definition same_ident :: "Order \<Rightarrow> Order \<Rightarrow> bool" where
  "same_ident x y =
     (oid x = oid y \<and> symbol x = symbol y \<and> side x = side y \<and> order_type x = order_type y
      \<and> quantity x = quantity y \<and> price x = price y \<and> created_at x = created_at y
      \<and> user_id x = user_id y)"

definition filled_ok :: "(addr \<Rightarrow> Order) \<Rightarrow> bool" where
  "filled_ok h = (\<forall>x. filled_quantity (h x) \<le> quantity (h x))"

text \<open>The trade record that \<open>_execute_trade\<close> builds for a buy and a sell order.\<close>

definition trade_between :: "Trade \<Rightarrow> Order \<Rightarrow> Order \<Rightarrow> bool" where
  "trade_between t buy_order sell_order =
     (t_symbol t = symbol buy_order \<and> buy_order_id t = oid buy_order
      \<and> sell_order_id t = oid sell_order \<and> buyer_id t = user_id buy_order
      \<and> seller_id t = user_id sell_order
      \<and> t_price t = trade_price_of buy_order sell_order)"

text \<open>
  The state of \<open>process_order\<close> after validation, when the symbol's book has been
  created and the order stored in \<open>active_orders\<close>, before matching starts.
\<close>

definition stored_state :: "timestamp \<Rightarrow> engine \<Rightarrow> addr \<Rightarrow> engine" where
  "stored_state now s a =
     (let order = objects s a;
          s1 = (case order_books s (symbol order) of
                  None \<Rightarrow> s\<lparr>order_books := (order_books s)(symbol order \<mapsto>
                               \<lparr>ob_symbol = symbol order, bids = [], asks = [],
                                last_updated = now\<rparr>)\<rparr>
                | Some orderbook \<Rightarrow> s)
      in s1\<lparr>active_orders := AList.update (oid order) a (active_orders s1)\<rparr>)"

text \<open>
  What holds of every state that the engine reaches from \<open>new_engine h0\<close>: the order
  objects keep their identity; the resting lists of a symbol hold orders of that symbol
  and side; a stored order was validated, is stored under its id and its symbol has a
  book; every recorded trade is between a buy and a sell order that were price
  compatible; no order is overfilled when none was at the start.
\<close>

definition engine_inv :: "(addr \<Rightarrow> Order) \<Rightarrow> engine \<Rightarrow> bool" where
  "engine_inv h0 s =
     ((\<forall>x. same_ident (h0 x) (objects s x))
      \<and> (\<forall>k x. x \<in> set (buy_orders (orders_by_symbol s k)) \<longrightarrow> side (h0 x) = BUY \<and> symbol (h0 x) = k)
      \<and> (\<forall>k x. x \<in> set (sell_orders (orders_by_symbol s k)) \<longrightarrow> side (h0 x) = SELL \<and> symbol (h0 x) = k)
      \<and> (\<forall>k a. (k, a) \<in> set (active_orders s) \<longrightarrow>
             oid (h0 a) = k \<and> validate_order (h0 a) \<and> order_books s (symbol (h0 a)) \<noteq> None)
      \<and> (\<forall>t. t \<in> set (trades s) \<longrightarrow>
             (\<exists>b a. side (h0 b) = BUY \<and> side (h0 a) = SELL \<and> trade_between t (h0 b) (h0 a)
                    \<and> price_matches (h0 b) (h0 a)))
      \<and> (filled_ok h0 \<longrightarrow> filled_ok (objects s)))"

subsection \<open>Example orders\<close>

text \<open>
  \<open>Order(...)\<close> with the defaults of models.py: status \<open>Pending\<close>, nothing filled,
  no average price. The examples trade the symbol \<open>X/Y\<close>; \<open>store\<close> places a list of
  orders at the addresses \<open>0, 1, 2, \<dots>\<close>.
\<close>

definition new_order ::
  "string \<Rightarrow> string \<Rightarrow> OrderSide \<Rightarrow> OrderType \<Rightarrow> real \<Rightarrow> real option \<Rightarrow> timestamp \<Rightarrow> Order" where
  "new_order i u sd ty q p t =
     \<lparr>oid = i, symbol = ''X/Y'', side = sd, order_type = ty, quantity = q, price = p,
      stop_price = None, status = PENDING, filled_quantity = 0, average_price = None,
      created_at = t, updated_at = t, user_id = u, client_order_id = i\<rparr>"

definition store :: "Order list \<Rightarrow> addr \<Rightarrow> Order" where
  "store xs a = (if a < length xs then xs ! a else new_order [] [] BUY LIMIT 0 None 0)"

text \<open>A sell of 1 at 100, then a buy of 0.8 at 100, then a buy of 0.2 at 100.\<close>

definition orders_partial :: "addr \<Rightarrow> Order" where
  "orders_partial = store
     [new_order ''s1'' ''A'' SELL LIMIT 1 (Some 100) 1,
      new_order ''b1'' ''C'' BUY LIMIT (4 / 5) (Some 100) 2,
      new_order ''b2'' ''D'' BUY LIMIT (1 / 5) (Some 100) 3]"

text \<open>A sell of 1 at 100, then a buy of 1 at 100.\<close>

definition orders_full :: "addr \<Rightarrow> Order" where
  "orders_full = store
     [new_order ''s1'' ''A'' SELL LIMIT 1 (Some 100) 1,
      new_order ''b1'' ''C'' BUY LIMIT 1 (Some 100) 2]"

text \<open>A stop order without a price; an order of quantity 0.\<close>

definition orders_stop :: "addr \<Rightarrow> Order" where
  "orders_stop = store
     [new_order ''p1'' ''A'' SELL STOP 1 None 1,
      new_order ''z1'' ''B'' BUY LIMIT 0 (Some 100) 2]"


text \<open>
  A sell of 1 at 100 and a buy of 0.8 at 100, which trade; an order of quantity 0,
  which is rejected; the sell is cancelled at the end.
\<close>

definition orders_lifecycle :: "addr \<Rightarrow> Order" where
  "orders_lifecycle = store
     [new_order ''s1'' ''A'' SELL LIMIT 1 (Some 100) 1,
      new_order ''b1'' ''C'' BUY LIMIT (4 / 5) (Some 100) 2,
      new_order ''z1'' ''B'' BUY LIMIT 0 (Some 100) 3]"

definition lifecycle :: "command list" where
  "lifecycle = [Submit 1 0, Submit 2 1, Submit 3 2, Cancel 4 ''s1'' ''A'']"

text \<open>
  The engine after the sell of 1 and the buy of 0.8 of \<open>orders_partial\<close>, and after the
  sell of 1 and the buy of 1 of \<open>orders_full\<close>.
\<close>

definition partial_resting :: engine where
  "partial_resting = run [Submit 1 0, Submit 2 1] (new_engine orders_partial)"

definition full_done :: engine where
  "full_done = run [Submit 1 0, Submit 2 1] (new_engine orders_full)"

text \<open>
  Orders for the price rule: a market buy; a sell at 100; a buy at 101; a market sell;
  a later sell at 100. Then a resting market sell that carries the price 7 and a market
  buy that carries the price 5.
\<close>

definition orders_pricing :: "addr \<Rightarrow> Order" where
  "orders_pricing = store
     [new_order ''b1'' ''C'' BUY MARKET 1 None 1,
      new_order ''s1'' ''A'' SELL LIMIT 1 (Some 100) 2,
      new_order ''b2'' ''D'' BUY LIMIT 1 (Some 101) 3,
      new_order ''s2'' ''B'' SELL MARKET 1 None 4,
      new_order ''s3'' ''E'' SELL LIMIT 1 (Some 100) 5]"

definition orders_market_priced :: "addr \<Rightarrow> Order" where
  "orders_market_priced = store
     [new_order ''s1'' ''A'' SELL MARKET 1 (Some 7) 1,
      new_order ''b1'' ''C'' BUY MARKET 1 (Some 5) 2]"

definition market_priced_resting :: engine where
  "market_priced_resting = run [Submit 1 0] (new_engine orders_market_priced)"

text \<open>
  A sell of 1 at 100 that a buy of 0.5 at 100 fills by half, a sell of 1 at 101, and a
  buy of 0.5 at 101. Mirrored: a buy of 1 at 101 that a sell of 0.5 at 101 fills by half,
  a buy of 1 at 100, and a sell of 0.5 at 100.
\<close>

definition orders_skipped_ask :: "addr \<Rightarrow> Order" where
  "orders_skipped_ask = store
     [new_order ''s1'' ''A'' SELL LIMIT 1 (Some 100) 1,
      new_order ''b1'' ''C'' BUY LIMIT (1 / 2) (Some 100) 2,
      new_order ''s2'' ''B'' SELL LIMIT 1 (Some 101) 3,
      new_order ''b2'' ''D'' BUY LIMIT (1 / 2) (Some 101) 4]"

definition skipped_ask_resting :: engine where
  "skipped_ask_resting = run [Submit 1 0, Submit 2 1, Submit 3 2] (new_engine orders_skipped_ask)"

definition orders_skipped_bid :: "addr \<Rightarrow> Order" where
  "orders_skipped_bid = store
     [new_order ''b1'' ''C'' BUY LIMIT 1 (Some 101) 1,
      new_order ''s1'' ''A'' SELL LIMIT (1 / 2) (Some 101) 2,
      new_order ''b2'' ''D'' BUY LIMIT 1 (Some 100) 3,
      new_order ''s2'' ''B'' SELL LIMIT (1 / 2) (Some 100) 4]"

definition skipped_bid_resting :: engine where
  "skipped_bid_resting = run [Submit 1 0, Submit 2 1, Submit 3 2] (new_engine orders_skipped_bid)"

text \<open>
  A book with two bids, at 99 and at 98, and three asks, two of 1 at 101 and one of 3
  at 102, all resting.
\<close>

definition orders_book :: "addr \<Rightarrow> Order" where
  "orders_book = store
     [new_order ''b1'' ''C'' BUY LIMIT 1 (Some 99) 1,
      new_order ''b2'' ''D'' BUY LIMIT 2 (Some 98) 2,
      new_order ''s1'' ''A'' SELL LIMIT 1 (Some 101) 3,
      new_order ''s2'' ''B'' SELL LIMIT 1 (Some 101) 4,
      new_order ''s3'' ''A'' SELL LIMIT 3 (Some 102) 5]"

definition book_resting :: engine where
  "book_resting =
     run [Submit 1 0, Submit 2 1, Submit 3 2, Submit 4 3, Submit 5 4] (new_engine orders_book)"



lemmas engine_defs =
  run_def new_engine_def store_def new_order_def process_order_def state_of_def
  validate_order_def price_invalid_def match_order_def match_buy_order_def
  match_sell_order_def sell_candidates_def buy_candidates_def execute_trade_def
  update_order_after_trade_def trade_price_of_def price_matches_def add_to_orderbook_def
  remove_from_orderbook_def update_orderbook_snapshot_def snapshot_bids_def
  snapshot_asks_def add_level_def update_market_data_def cancel_order_def Let_def
  ask_key_def bid_key_def

section \<open>Auxiliary facts\<close>

subsection \<open>Order identity and trade execution\<close>

lemma same_ident_refl [simp]: "same_ident x x" by (simp add: same_ident_def)
lemma same_ident_trans: "same_ident x y \<Longrightarrow> same_ident y z \<Longrightarrow> same_ident x z" by (simp add: same_ident_def)
lemma same_ident_sym: "same_ident x y \<Longrightarrow> same_ident y x" by (simp add: same_ident_def)

lemma price_matches_ident:
  "same_ident x x' \<Longrightarrow> same_ident y y' \<Longrightarrow> price_matches x y = price_matches x' y'"
  by (simp add: same_ident_def price_matches_def)

lemma trade_between_ident:
  "same_ident x x' \<Longrightarrow> same_ident y y' \<Longrightarrow> trade_between t x y = trade_between t x' y'"
  by (simp add: same_ident_def trade_between_def trade_price_of_def)

lemma validate_order_ident: "same_ident x x' \<Longrightarrow> validate_order x = validate_order x'"
  by (simp add: same_ident_def validate_order_def)

lemma uoat_state:
  "\<exists>o'. state_of (update_order_after_trade now s a q tp) = s\<lparr>objects := (objects s)(a := o')\<rparr>
     \<and> same_ident (objects s a) o' \<and> filled_quantity o' = filled_quantity (objects s a) + q"
  by (auto simp: update_order_after_trade_def state_of_def Let_def same_ident_def split: option.splits)

lemma uoat_Inr:
  "update_order_after_trade now s a q tp = Inr (u, s') \<Longrightarrow>
     \<exists>o'. s' = s\<lparr>objects := (objects s)(a := o')\<rparr>
       \<and> same_ident (objects s a) o' \<and> filled_quantity o' = filled_quantity (objects s a) + q
       \<and> status o' = (if filled_quantity o' \<ge> quantity o' then FILLED else PARTIAL)
       \<and> updated_at o' = now"
  by (auto simp: update_order_after_trade_def Let_def same_ident_def split: option.splits if_splits)

lemma execute_trade_None:
  "execute_trade now s b a = Inr (None, s') \<Longrightarrow>
     s' = s \<and> min (quantity (objects s b) - filled_quantity (objects s b))
                  (quantity (objects s a) - filled_quantity (objects s a)) \<le> 0"
  by (auto simp: execute_trade_def Let_def split: if_splits sum.splits)

lemma execute_trade_SomeD:
  assumes "execute_trade now s b a = Inr (Some t, s')"
  shows "\<exists>s1 u u'. 
     0 < t_quantity t
   \<and> t_quantity t = min (quantity (objects s b) - filled_quantity (objects s b))
                  (quantity (objects s a) - filled_quantity (objects s a))
   \<and> trade_between t (objects s b) (objects s a) \<and> t_timestamp t = now
   \<and> update_order_after_trade now s b (t_quantity t) (t_price t) = Inr (u, s1)
   \<and> update_order_after_trade now s1 a (t_quantity t) (t_price t) = Inr (u', s')"
  using assms
  by (auto simp: execute_trade_def Let_def min_le_iff_disj trade_between_def split: if_splits sum.splits)

lemma execute_trade_state:
  "\<exists>h'. state_of (execute_trade now s b a) = s\<lparr>objects := h'\<rparr>
     \<and> (\<forall>x. same_ident (objects s x) (h' x))
     \<and> (\<forall>x. x \<noteq> a \<and> x \<noteq> b \<longrightarrow> h' x = objects s x)
     \<and> (b \<noteq> a \<longrightarrow> filled_ok (objects s) \<longrightarrow> filled_ok h')"
proof (cases "min (quantity (objects s b) - filled_quantity (objects s b))
                  (quantity (objects s a) - filled_quantity (objects s a)) \<le> 0")
  case True
  then have "state_of (execute_trade now s b a) = s\<lparr>objects := objects s\<rparr>"
    by (simp add: execute_trade_def state_of_def Let_def)
  then show ?thesis by (intro exI[of _ "objects s"]) simp
next
  case False
  define q where "q = min (quantity (objects s b) - filled_quantity (objects s b))
                  (quantity (objects s a) - filled_quantity (objects s a))"
  define tp where "tp = trade_price_of (objects s b) (objects s a)"
  obtain o1 where o1: "state_of (update_order_after_trade now s b q tp) = s\<lparr>objects := (objects s)(b := o1)\<rparr>"
     "same_ident (objects s b) o1" "filled_quantity o1 = filled_quantity (objects s b) + q"
    using uoat_state by blast
  have f1: "filled_quantity o1 \<le> quantity o1"
    using o1(2,3) by (simp add: q_def same_ident_def)
  show ?thesis
  proof (cases "update_order_after_trade now s b q tp")
    case (Inl e)
    then have "state_of (execute_trade now s b a) = state_of (update_order_after_trade now s b q tp)"
      using False by (simp add: execute_trade_def state_of_def Let_def q_def tp_def)
    with o1 f1 show ?thesis
      by (intro exI[of _ "(objects s)(b := o1)"]) (auto simp: filled_ok_def)
  next
    case (Inr r)
    obtain u s1 where r: "r = (u, s1)" by (cases r)
    have s1: "s1 = s\<lparr>objects := (objects s)(b := o1)\<rparr>"
      using o1(1) Inr r by (simp add: state_of_def)
    obtain o2 where o2: "state_of (update_order_after_trade now s1 a q tp) = s1\<lparr>objects := (objects s1)(a := o2)\<rparr>"
     "same_ident (objects s1 a) o2" "filled_quantity o2 = filled_quantity (objects s1 a) + q"
      using uoat_state by blast
    have "state_of (execute_trade now s b a) = state_of (update_order_after_trade now s1 a q tp)"
      using False Inr r
      by (simp add: execute_trade_def state_of_def Let_def q_def tp_def split: sum.splits)
    then have eq: "state_of (execute_trade now s b a) = s\<lparr>objects := (objects s)(b := o1, a := o2)\<rparr>"
      using o2(1) s1 by simp
    have i2: "same_ident (objects s a) o2"
      using o2(2) o1(2) s1 by (cases "a = b") (auto intro: same_ident_trans)
    have f2: "b \<noteq> a \<Longrightarrow> filled_quantity o2 \<le> quantity o2"
      using o2(2,3) s1 by (simp add: q_def same_ident_def)
    from eq o1(2) i2 f1 f2 show ?thesis
      by (intro exI[of _ "(objects s)(b := o1, a := o2)"]) (auto simp: filled_ok_def)
  qed
qed

lemma match_buy_loop_post:
  "\<exists>h' new picked.
     state_of (match_buy_loop now b cands trs s) = s\<lparr>objects := h', trades := trades s @ new\<rparr>
     \<and> (\<forall>x. same_ident (objects s x) (h' x))
     \<and> (\<forall>r. match_buy_loop now b cands trs s = Inr r \<longrightarrow> fst r = trs @ new)
     \<and> subseq picked cands
     \<and> list_all2 (\<lambda>t a. trade_between t (objects s b) (objects s a)
                         \<and> price_matches (objects s b) (objects s a)) new picked
     \<and> (b \<notin> set cands \<longrightarrow> filled_ok (objects s) \<longrightarrow> filled_ok h')"
proof (induction cands arbitrary: trs s)
  case Nil
  show ?case
    by (intro exI[of _ "objects s"] exI[of _ "[]"]) (simp add: state_of_def)
next
  case (Cons a rest)
  let ?P = "\<lambda>s t a. trade_between t (objects s b) (objects s a)
                         \<and> price_matches (objects s b) (objects s a)"
  show ?case
  proof (cases "quantity (objects s b) - filled_quantity (objects s b) \<le> 0")
    case True
    then show ?thesis
      by (intro exI[of _ "objects s"] exI[of _ "[]"]) (simp add: state_of_def)
  next
    case rem: False
    show ?thesis
    proof (cases "price_matches (objects s b) (objects s a)")
      case False
      from Cons.IH[of trs s] obtain h' new picked where
        ih: "state_of (match_buy_loop now b rest trs s) = s\<lparr>objects := h', trades := trades s @ new\<rparr>"
            "\<forall>x. same_ident (objects s x) (h' x)"
            "\<forall>r. match_buy_loop now b rest trs s = Inr r \<longrightarrow> fst r = trs @ new"
            "subseq picked rest" "list_all2 (?P s) new picked"
            "b \<notin> set rest \<longrightarrow> filled_ok (objects s) \<longrightarrow> filled_ok h'"
        by blast
      have eq: "match_buy_loop now b (a # rest) trs s = match_buy_loop now b rest trs s"
        using rem False by simp
      show ?thesis
        unfolding eq using ih
        by (intro exI[of _ h'] exI[of _ new] exI[of _ picked]) (auto intro: subseq_Cons')
    next
      case pm: True
      obtain h1 where h1: "state_of (execute_trade now s b a) = s\<lparr>objects := h1\<rparr>"
          "\<forall>x. same_ident (objects s x) (h1 x)"
          "b \<noteq> a \<longrightarrow> filled_ok (objects s) \<longrightarrow> filled_ok h1"
        using execute_trade_state[of now s b a] by blast
      show ?thesis
      proof (cases "execute_trade now s b a")
        case (Inl e)
        then have eq: "match_buy_loop now b (a # rest) trs s = Inl e"
          using rem pm by simp
        have "state_of (match_buy_loop now b (a # rest) trs s) = s\<lparr>objects := h1\<rparr>"
          using h1(1) Inl eq by (simp add: state_of_def)
        then show ?thesis using h1 eq
          by (intro exI[of _ h1] exI[of _ "[]"] exI[of _ "[]"]) auto
      next
        case (Inr r)
        obtain res s1 where r: "r = (res, s1)" by (cases r)
        have s1: "s1 = s\<lparr>objects := h1\<rparr>"
          using h1(1) Inr r by (simp add: state_of_def)
        show ?thesis
        proof (cases res)
          case None
          then have "s1 = s" using execute_trade_None Inr r by blast
          then have eq: "match_buy_loop now b (a # rest) trs s = match_buy_loop now b rest trs s"
            using rem pm Inr r None by simp
          from Cons.IH[of trs s] obtain h' new picked where
            ih: "state_of (match_buy_loop now b rest trs s) = s\<lparr>objects := h', trades := trades s @ new\<rparr>"
                "\<forall>x. same_ident (objects s x) (h' x)"
                "\<forall>r. match_buy_loop now b rest trs s = Inr r \<longrightarrow> fst r = trs @ new"
                "subseq picked rest" "list_all2 (?P s) new picked"
                "b \<notin> set rest \<longrightarrow> filled_ok (objects s) \<longrightarrow> filled_ok h'"
            by blast
          show ?thesis
            unfolding eq using ih
            by (intro exI[of _ h'] exI[of _ new] exI[of _ picked]) (auto intro: subseq_Cons')
        next
          case (Some t)
          define s2 where "s2 = s1\<lparr>trades := trades s1 @ [t]\<rparr>"
          have eq: "match_buy_loop now b (a # rest) trs s = match_buy_loop now b rest (trs @ [t]) s2"
            using rem pm Inr r Some by (simp add: s2_def)
          have tb: "trade_between t (objects s b) (objects s a)"
            using execute_trade_SomeD Inr r Some by blast
          from Cons.IH[of "trs @ [t]" s2] obtain h' new picked where
            ih: "state_of (match_buy_loop now b rest (trs @ [t]) s2) = s2\<lparr>objects := h', trades := trades s2 @ new\<rparr>"
                "\<forall>x. same_ident (objects s2 x) (h' x)"
                "\<forall>r. match_buy_loop now b rest (trs @ [t]) s2 = Inr r \<longrightarrow> fst r = (trs @ [t]) @ new"
                "subseq picked rest" "list_all2 (?P s2) new picked"
                "b \<notin> set rest \<longrightarrow> filled_ok (objects s2) \<longrightarrow> filled_ok h'"
            by blast
          have o2: "objects s2 = h1" by (simp add: s2_def s1)
          have P: "?P s2 = ?P s"
            using h1(2) o2
            by (intro ext) (metis price_matches_ident trade_between_ident)
          have st: "state_of (match_buy_loop now b (a # rest) trs s)
                      = s\<lparr>objects := h', trades := trades s @ (t # new)\<rparr>"
            unfolding eq ih(1) by (simp add: s2_def s1)
          have id: "\<forall>x. same_ident (objects s x) (h' x)"
            using h1(2) ih(2) o2 by (auto intro: same_ident_trans)
          have la: "list_all2 (?P s) (t # new) (a # picked)"
            using ih(5) tb pm unfolding P by simp
          have fo: "b \<notin> set (a # rest) \<longrightarrow> filled_ok (objects s) \<longrightarrow> filled_ok h'"
            using h1(3) ih(6) o2 by auto
          show ?thesis
            unfolding eq using st[unfolded eq] id ih(3,4) la fo
            by (intro exI[of _ h'] exI[of _ "t # new"] exI[of _ "a # picked"]) auto
        qed
      qed
    qed
  qed
qed

lemma match_sell_loop_post:
  "\<exists>h' new picked.
     state_of (match_sell_loop now a cands trs s) = s\<lparr>objects := h', trades := trades s @ new\<rparr>
     \<and> (\<forall>x. same_ident (objects s x) (h' x))
     \<and> (\<forall>r. match_sell_loop now a cands trs s = Inr r \<longrightarrow> fst r = trs @ new)
     \<and> subseq picked cands
     \<and> list_all2 (\<lambda>t b. trade_between t (objects s b) (objects s a)
                         \<and> price_matches (objects s b) (objects s a)) new picked
     \<and> (a \<notin> set cands \<longrightarrow> filled_ok (objects s) \<longrightarrow> filled_ok h')"
proof (induction cands arbitrary: trs s)
  case Nil
  show ?case
    by (intro exI[of _ "objects s"] exI[of _ "[]"]) (simp add: state_of_def)
next
  case (Cons b rest)
  let ?P = "\<lambda>s t b. trade_between t (objects s b) (objects s a)
                         \<and> price_matches (objects s b) (objects s a)"
  show ?case
  proof (cases "quantity (objects s a) - filled_quantity (objects s a) \<le> 0")
    case True
    then show ?thesis
      by (intro exI[of _ "objects s"] exI[of _ "[]"]) (simp add: state_of_def)
  next
    case rem: False
    show ?thesis
    proof (cases "price_matches (objects s b) (objects s a)")
      case False
      from Cons.IH[of trs s] obtain h' new picked where
        ih: "state_of (match_sell_loop now a rest trs s) = s\<lparr>objects := h', trades := trades s @ new\<rparr>"
            "\<forall>x. same_ident (objects s x) (h' x)"
            "\<forall>r. match_sell_loop now a rest trs s = Inr r \<longrightarrow> fst r = trs @ new"
            "subseq picked rest" "list_all2 (?P s) new picked"
            "a \<notin> set rest \<longrightarrow> filled_ok (objects s) \<longrightarrow> filled_ok h'"
        by blast
      have eq: "match_sell_loop now a (b # rest) trs s = match_sell_loop now a rest trs s"
        using rem False by simp
      show ?thesis
        unfolding eq using ih
        by (intro exI[of _ h'] exI[of _ new] exI[of _ picked]) (auto intro: subseq_Cons')
    next
      case pm: True
      obtain h1 where h1: "state_of (execute_trade now s b a) = s\<lparr>objects := h1\<rparr>"
          "\<forall>x. same_ident (objects s x) (h1 x)"
          "b \<noteq> a \<longrightarrow> filled_ok (objects s) \<longrightarrow> filled_ok h1"
        using execute_trade_state[of now s b a] by blast
      show ?thesis
      proof (cases "execute_trade now s b a")
        case (Inl e)
        then have eq: "match_sell_loop now a (b # rest) trs s = Inl e"
          using rem pm by simp
        have "state_of (match_sell_loop now a (b # rest) trs s) = s\<lparr>objects := h1\<rparr>"
          using h1(1) Inl eq by (simp add: state_of_def)
        then show ?thesis using h1 eq
          by (intro exI[of _ h1] exI[of _ "[]"] exI[of _ "[]"]) auto
      next
        case (Inr r)
        obtain res s1 where r: "r = (res, s1)" by (cases r)
        have s1: "s1 = s\<lparr>objects := h1\<rparr>"
          using h1(1) Inr r by (simp add: state_of_def)
        show ?thesis
        proof (cases res)
          case None
          then have "s1 = s" using execute_trade_None Inr r by blast
          then have eq: "match_sell_loop now a (b # rest) trs s = match_sell_loop now a rest trs s"
            using rem pm Inr r None by simp
          from Cons.IH[of trs s] obtain h' new picked where
            ih: "state_of (match_sell_loop now a rest trs s) = s\<lparr>objects := h', trades := trades s @ new\<rparr>"
                "\<forall>x. same_ident (objects s x) (h' x)"
                "\<forall>r. match_sell_loop now a rest trs s = Inr r \<longrightarrow> fst r = trs @ new"
                "subseq picked rest" "list_all2 (?P s) new picked"
                "a \<notin> set rest \<longrightarrow> filled_ok (objects s) \<longrightarrow> filled_ok h'"
            by blast
          show ?thesis
            unfolding eq using ih
            by (intro exI[of _ h'] exI[of _ new] exI[of _ picked]) (auto intro: subseq_Cons')
        next
          case (Some t)
          define s2 where "s2 = s1\<lparr>trades := trades s1 @ [t]\<rparr>"
          have eq: "match_sell_loop now a (b # rest) trs s = match_sell_loop now a rest (trs @ [t]) s2"
            using rem pm Inr r Some by (simp add: s2_def)
          have tb: "trade_between t (objects s b) (objects s a)"
            using execute_trade_SomeD Inr r Some by blast
          from Cons.IH[of "trs @ [t]" s2] obtain h' new picked where
            ih: "state_of (match_sell_loop now a rest (trs @ [t]) s2) = s2\<lparr>objects := h', trades := trades s2 @ new\<rparr>"
                "\<forall>x. same_ident (objects s2 x) (h' x)"
                "\<forall>r. match_sell_loop now a rest (trs @ [t]) s2 = Inr r \<longrightarrow> fst r = (trs @ [t]) @ new"
                "subseq picked rest" "list_all2 (?P s2) new picked"
                "a \<notin> set rest \<longrightarrow> filled_ok (objects s2) \<longrightarrow> filled_ok h'"
            by blast
          have o2: "objects s2 = h1" by (simp add: s2_def s1)
          have P: "?P s2 = ?P s"
            using h1(2) o2
            by (intro ext) (metis price_matches_ident trade_between_ident)
          have st: "state_of (match_sell_loop now a (b # rest) trs s)
                      = s\<lparr>objects := h', trades := trades s @ (t # new)\<rparr>"
            unfolding eq ih(1) by (simp add: s2_def s1)
          have id: "\<forall>x. same_ident (objects s x) (h' x)"
            using h1(2) ih(2) o2 by (auto intro: same_ident_trans)
          have la: "list_all2 (?P s) (t # new) (b # picked)"
            using ih(5) tb pm unfolding P by simp
          have fo: "a \<notin> set (b # rest) \<longrightarrow> filled_ok (objects s) \<longrightarrow> filled_ok h'"
            using h1(3) ih(6) o2 by auto
          show ?thesis
            unfolding eq using st[unfolded eq] id ih(3,4) la fo
            by (intro exI[of _ h'] exI[of _ "t # new"] exI[of _ "b # picked"]) auto
        qed
      qed
    qed
  qed
qed

subsection \<open>Preservation of the invariant by the book and market data updates\<close>

lemma state_of_simps [simp]: "state_of (Inl (e, s)) = s" "state_of (Inr (x, s)) = s"
  by (simp_all add: state_of_def)

lemma set_update_subset: "set (AList.update k v al) \<subseteq> insert (k, v) (set al)"
  by (induction al) auto

lemma snapshot_state:
  "state_of (update_orderbook_snapshot now s k) =
     (case order_books s k of None \<Rightarrow> s
      | Some ob \<Rightarrow> s\<lparr>order_books := (order_books s)(k \<mapsto>
           ob\<lparr>bids := snapshot_bids s k, asks := snapshot_asks s k, last_updated := now\<rparr>)\<rparr>)"
  by (simp add: update_orderbook_snapshot_def split: option.splits)

lemma inv_objects:
  "engine_inv h0 s \<Longrightarrow> \<forall>x. same_ident (objects s x) (h' x) \<Longrightarrow>
   (filled_ok (objects s) \<longrightarrow> filled_ok h') \<Longrightarrow> engine_inv h0 (s\<lparr>objects := h'\<rparr>)"
  unfolding engine_inv_def by (auto intro: same_ident_trans)

lemma inv_trades_append:
  "engine_inv h0 s \<Longrightarrow>
   \<forall>t\<in>set new. \<exists>b a. side (h0 b) = BUY \<and> side (h0 a) = SELL \<and> trade_between t (h0 b) (h0 a)
                    \<and> price_matches (h0 b) (h0 a) \<Longrightarrow>
   engine_inv h0 (s\<lparr>trades := trades s @ new\<rparr>)"
  unfolding engine_inv_def by auto

lemma inv_book_upd:
  "engine_inv h0 s \<Longrightarrow> engine_inv h0 (s\<lparr>order_books := (order_books s)(k \<mapsto> ob)\<rparr>)"
  unfolding engine_inv_def by auto

lemma inv_market_data [simp]:
  "engine_inv h0 (s\<lparr>market_data := m\<rparr>) = engine_inv h0 s"
  unfolding engine_inv_def by simp

lemma inv_active:
  assumes "engine_inv h0 s" "validate_order (h0 a)" "order_books s (symbol (h0 a)) \<noteq> None"
  shows "engine_inv h0 (s\<lparr>active_orders := AList.update (oid (h0 a)) a (active_orders s)\<rparr>)"
proof -
  have act: "\<forall>k x. (k, x) \<in> set (AList.update (oid (h0 a)) a (active_orders s)) \<longrightarrow>
          oid (h0 x) = k \<and> validate_order (h0 x) \<and> order_books s (symbol (h0 x)) \<noteq> None"
  proof (intro allI impI)
    fix k x
    assume "(k, x) \<in> set (AList.update (oid (h0 a)) a (active_orders s))"
    then consider "(k, x) = (oid (h0 a), a)" | "(k, x) \<in> set (active_orders s)"
      using set_update_subset by fastforce
    then show "oid (h0 x) = k \<and> validate_order (h0 x) \<and> order_books s (symbol (h0 x)) \<noteq> None"
      using assms by cases (auto simp: engine_inv_def)
  qed
  show ?thesis
    using assms(1) act unfolding engine_inv_def by simp
qed

lemma inv_snapshot:
  "engine_inv h0 s \<Longrightarrow> engine_inv h0 (state_of (update_orderbook_snapshot now s k))"
  by (simp add: snapshot_state inv_book_upd split: option.splits)

lemma inv_add_to_orderbook:
  assumes "engine_inv h0 s"
  shows "engine_inv h0 (state_of (add_to_orderbook now s a))"
proof -
  have id: "same_ident (h0 a) (objects s a)"
    using assms by (simp add: engine_inv_def)
  define s1 where "s1 = s\<lparr>orders_by_symbol := (orders_by_symbol s)(symbol (objects s a) :=
                  (if side (objects s a) = BUY
                   then (orders_by_symbol s (symbol (objects s a)))
                          \<lparr>buy_orders := buy_orders (orders_by_symbol s (symbol (objects s a))) @ [a]\<rparr>
                   else (orders_by_symbol s (symbol (objects s a)))
                          \<lparr>sell_orders := sell_orders (orders_by_symbol s (symbol (objects s a))) @ [a]\<rparr>))\<rparr>"
  have "side (h0 a) \<noteq> BUY \<Longrightarrow> side (h0 a) = SELL" by (cases "side (h0 a)") auto
  then have "engine_inv h0 s1"
    using assms id unfolding engine_inv_def s1_def same_ident_def by auto
  moreover have "add_to_orderbook now s a = update_orderbook_snapshot now s1 (symbol (objects s a))"
    by (simp add: add_to_orderbook_def s1_def Let_def)
  ultimately show ?thesis by (simp add: inv_snapshot)
qed

lemma inv_remove_from_orderbook:
  assumes "engine_inv h0 s"
  shows "engine_inv h0 (state_of (remove_from_orderbook now s a))"
proof -
  define keep where "keep = (\<lambda>x. oid (objects s x) \<noteq> oid (objects s a))"
  define s1 where "s1 = s\<lparr>orders_by_symbol := (orders_by_symbol s)(symbol (objects s a) :=
                  (if side (objects s a) = BUY
                   then (orders_by_symbol s (symbol (objects s a)))
                          \<lparr>buy_orders := filter keep (buy_orders (orders_by_symbol s (symbol (objects s a))))\<rparr>
                   else (orders_by_symbol s (symbol (objects s a)))
                          \<lparr>sell_orders := filter keep (sell_orders (orders_by_symbol s (symbol (objects s a))))\<rparr>))\<rparr>"
  have "engine_inv h0 s1"
    using assms unfolding engine_inv_def s1_def by auto
  moreover have "remove_from_orderbook now s a = update_orderbook_snapshot now s1 (symbol (objects s a))"
    by (simp add: remove_from_orderbook_def s1_def keep_def Let_def)
  ultimately show ?thesis by (simp add: inv_snapshot)
qed

lemma update_market_data_state:
  "\<exists>m. state_of (update_market_data now s k t) = s\<lparr>market_data := (market_data s)(k \<mapsto> m)\<rparr>"
  by (auto simp: update_market_data_def Let_def split: option.splits list.splits)

lemma inv_update_market_data:
  "engine_inv h0 s \<Longrightarrow> engine_inv h0 (state_of (update_market_data now s k t))"
  using update_market_data_state[of now s k t] by auto

subsection \<open>Matching preserves the invariant\<close>

lemma subseq_in_set: "subseq xs ys \<Longrightarrow> x \<in> set xs \<Longrightarrow> x \<in> set ys"
  by (induction rule: list_emb.induct) auto

lemma list_all2_in_set1:
  "list_all2 P xs ys \<Longrightarrow> x \<in> set xs \<Longrightarrow> \<exists>y\<in>set ys. P x y"
  by (induction rule: list_all2_induct) auto

lemma set_sell_candidates:
  "x \<in> set (sell_candidates s k) \<Longrightarrow> x \<in> set (sell_orders (orders_by_symbol s k))"
  by (simp add: sell_candidates_def)

lemma set_buy_candidates:
  "x \<in> set (buy_candidates s k) \<Longrightarrow> x \<in> set (buy_orders (orders_by_symbol s k))"
  by (simp add: buy_candidates_def)

lemma inv_identD: "engine_inv h0 s \<Longrightarrow> same_ident (h0 x) (objects s x)"
  by (simp add: engine_inv_def)

lemma inv_buyD:
  "engine_inv h0 s \<Longrightarrow> x \<in> set (buy_orders (orders_by_symbol s k)) \<Longrightarrow>
     side (h0 x) = BUY \<and> symbol (h0 x) = k"
  by (simp add: engine_inv_def)

lemma inv_sellD:
  "engine_inv h0 s \<Longrightarrow> x \<in> set (sell_orders (orders_by_symbol s k)) \<Longrightarrow>
     side (h0 x) = SELL \<and> symbol (h0 x) = k"
  by (simp add: engine_inv_def)

lemma inv_activeD:
  "engine_inv h0 s \<Longrightarrow> (k, a) \<in> set (active_orders s) \<Longrightarrow>
     oid (h0 a) = k \<and> validate_order (h0 a) \<and> order_books s (symbol (h0 a)) \<noteq> None"
  by (simp add: engine_inv_def)

lemma inv_tradesD:
  "engine_inv h0 s \<Longrightarrow> t \<in> set (trades s) \<Longrightarrow>
     \<exists>b a. side (h0 b) = BUY \<and> side (h0 a) = SELL \<and> trade_between t (h0 b) (h0 a)
            \<and> price_matches (h0 b) (h0 a)"
  by (simp add: engine_inv_def)

lemma inv_filledD: "engine_inv h0 s \<Longrightarrow> filled_ok h0 \<Longrightarrow> filled_ok (objects s)"
  by (simp add: engine_inv_def)

lemma match_order_frame:
  "\<exists>h' new. state_of (match_order now s a) = s\<lparr>objects := h', trades := trades s @ new\<rparr>
     \<and> (\<forall>x. same_ident (objects s x) (h' x))
     \<and> (\<forall>r. match_order now s a = Inr r \<longrightarrow> fst r = new)"
proof (cases "order_books s (symbol (objects s a))")
  case None
  then show ?thesis
    by (intro exI[of _ "objects s"] exI[of _ "[]"]) (simp add: match_order_def)
next
  case (Some ob)
  show ?thesis
  proof (cases "side (objects s a) = BUY")
    case True
    let ?c = "sell_candidates s (symbol (objects s a))"
    have eq: "match_order now s a = match_buy_loop now a ?c [] s"
      using Some True by (simp add: match_order_def match_buy_order_def)
    obtain h' new where p:
      "state_of (match_buy_loop now a ?c [] s) = s\<lparr>objects := h', trades := trades s @ new\<rparr>"
      "\<forall>x. same_ident (objects s x) (h' x)"
      "\<forall>r. match_buy_loop now a ?c [] s = Inr r \<longrightarrow> fst r = [] @ new"
      using match_buy_loop_post[of now a ?c "[]" s] by blast
    show ?thesis
      unfolding eq using p by (intro exI[of _ h'] exI[of _ new]) simp
  next
    case False
    let ?c = "buy_candidates s (symbol (objects s a))"
    have eq: "match_order now s a = match_sell_loop now a ?c [] s"
      using Some False by (simp add: match_order_def match_sell_order_def)
    obtain h' new where p:
      "state_of (match_sell_loop now a ?c [] s) = s\<lparr>objects := h', trades := trades s @ new\<rparr>"
      "\<forall>x. same_ident (objects s x) (h' x)"
      "\<forall>r. match_sell_loop now a ?c [] s = Inr r \<longrightarrow> fst r = [] @ new"
      using match_sell_loop_post[of now a ?c "[]" s] by blast
    show ?thesis
      unfolding eq using p by (intro exI[of _ h'] exI[of _ new]) simp
  qed
qed

lemma inv_match_order:
  assumes inv: "engine_inv h0 s"
  shows "engine_inv h0 (state_of (match_order now s a))"
proof (cases "order_books s (symbol (objects s a))")
  case None
  then show ?thesis using inv by (simp add: match_order_def)
next
  case (Some ob)
  have id: "\<And>x. same_ident (h0 x) (objects s x)"
    using inv by (rule inv_identD)
  have sd: "side (objects s a) = side (h0 a)" "symbol (objects s a) = symbol (h0 a)"
    using id[of a] by (simp_all add: same_ident_def)
  show ?thesis
  proof (cases "side (objects s a) = BUY")
    case True
    let ?c = "sell_candidates s (symbol (objects s a))"
    have eq: "match_order now s a = match_buy_loop now a ?c [] s"
      using Some True by (simp add: match_order_def match_buy_order_def)
    have cs: "\<And>x. x \<in> set ?c \<Longrightarrow> side (h0 x) = SELL"
      using inv_sellD[OF inv set_sell_candidates] by simp
    have notin: "a \<notin> set ?c"
    proof
      assume "a \<in> set ?c"
      then have "side (h0 a) = SELL" by (rule cs)
      then show False using True sd by simp
    qed
    obtain h' new picked where p:
      "state_of (match_buy_loop now a ?c [] s) = s\<lparr>objects := h', trades := trades s @ new\<rparr>"
      "\<forall>x. same_ident (objects s x) (h' x)"
      "subseq picked ?c"
      "list_all2 (\<lambda>t x. trade_between t (objects s a) (objects s x)
                         \<and> price_matches (objects s a) (objects s x)) new picked"
      "a \<notin> set ?c \<longrightarrow> filled_ok (objects s) \<longrightarrow> filled_ok h'"
      using match_buy_loop_post[of now a ?c "[]" s] by blast
    have tr: "\<forall>t\<in>set new. \<exists>b x. side (h0 b) = BUY \<and> side (h0 x) = SELL
                 \<and> trade_between t (h0 b) (h0 x) \<and> price_matches (h0 b) (h0 x)"
    proof
      fix t assume "t \<in> set new"
      then obtain x where x: "x \<in> set picked" "trade_between t (objects s a) (objects s x)"
          "price_matches (objects s a) (objects s x)"
        using list_all2_in_set1[OF p(4)] by blast
      have "x \<in> set ?c" using subseq_in_set[OF p(3)] x(1) by simp
      then have 1: "side (h0 x) = SELL" using cs by simp
      have 2: "trade_between t (h0 a) (h0 x)"
        using x(2) trade_between_ident[OF id id] by simp
      have 3: "price_matches (h0 a) (h0 x)"
        using x(3) price_matches_ident[OF id id] by simp
      have 4: "side (h0 a) = BUY" using True sd by simp
      from 1 2 3 4 show "\<exists>b x. side (h0 b) = BUY \<and> side (h0 x) = SELL
                 \<and> trade_between t (h0 b) (h0 x) \<and> price_matches (h0 b) (h0 x)"
        by (intro exI[of _ a] exI[of _ x]) simp
    qed
    have "engine_inv h0 (s\<lparr>objects := h'\<rparr>)"
      using inv_objects[OF inv p(2)] p(5) notin by simp
    from inv_trades_append[OF this tr] show ?thesis
      unfolding eq p(1) by simp
  next
    case False
    then have sell: "side (h0 a) = SELL" using sd by (cases "side (h0 a)") auto
    let ?c = "buy_candidates s (symbol (objects s a))"
    have eq: "match_order now s a = match_sell_loop now a ?c [] s"
      using Some False by (simp add: match_order_def match_sell_order_def)
    have cs: "\<And>x. x \<in> set ?c \<Longrightarrow> side (h0 x) = BUY"
      using inv_buyD[OF inv set_buy_candidates] by simp
    have notin: "a \<notin> set ?c"
    proof
      assume "a \<in> set ?c"
      then have "side (h0 a) = BUY" by (rule cs)
      then show False using sell by simp
    qed
    obtain h' new picked where p:
      "state_of (match_sell_loop now a ?c [] s) = s\<lparr>objects := h', trades := trades s @ new\<rparr>"
      "\<forall>x. same_ident (objects s x) (h' x)"
      "subseq picked ?c"
      "list_all2 (\<lambda>t x. trade_between t (objects s x) (objects s a)
                         \<and> price_matches (objects s x) (objects s a)) new picked"
      "a \<notin> set ?c \<longrightarrow> filled_ok (objects s) \<longrightarrow> filled_ok h'"
      using match_sell_loop_post[of now a ?c "[]" s] by blast
    have tr: "\<forall>t\<in>set new. \<exists>b x. side (h0 b) = BUY \<and> side (h0 x) = SELL
                 \<and> trade_between t (h0 b) (h0 x) \<and> price_matches (h0 b) (h0 x)"
    proof
      fix t assume "t \<in> set new"
      then obtain x where x: "x \<in> set picked" "trade_between t (objects s x) (objects s a)"
          "price_matches (objects s x) (objects s a)"
        using list_all2_in_set1[OF p(4)] by blast
      have "x \<in> set ?c" using subseq_in_set[OF p(3)] x(1) by simp
      then have 1: "side (h0 x) = BUY" using cs by simp
      have 2: "trade_between t (h0 x) (h0 a)"
        using x(2) trade_between_ident[OF id id] by simp
      have 3: "price_matches (h0 x) (h0 a)"
        using x(3) price_matches_ident[OF id id] by simp
      from 1 2 3 sell show "\<exists>b x. side (h0 b) = BUY \<and> side (h0 x) = SELL
                 \<and> trade_between t (h0 b) (h0 x) \<and> price_matches (h0 b) (h0 x)"
        by (intro exI[of _ x] exI[of _ a]) simp
    qed
    have "engine_inv h0 (s\<lparr>objects := h'\<rparr>)"
      using inv_objects[OF inv p(2)] p(5) notin by simp
    from inv_trades_append[OF this tr] show ?thesis
      unfolding eq p(1) by simp
  qed
qed

subsection \<open>The entry points preserve the invariant\<close>

lemma process_order_rejected:
  "\<not> validate_order (objects s a) \<Longrightarrow>
     process_order now s a = Inr ([], s\<lparr>objects := (objects s)(a := (objects s a)\<lparr>status := REJECTED\<rparr>)\<rparr>)"
  by (simp add: process_order_def)

lemma process_order_valid:
  "validate_order (objects s a) \<Longrightarrow>
     process_order now s a =
       (case match_order now (stored_state now s a) a of
          Inl e \<Rightarrow> Inl e
        | Inr (trs, s3) \<Rightarrow>
            (case (if status (objects s3 a) \<noteq> FILLED then add_to_orderbook now s3 a
                   else Inr ((), s3)) of
               Inl e \<Rightarrow> Inl e
             | Inr (u, s4) \<Rightarrow>
                 if trs \<noteq> []
                 then (case update_market_data now s4 (symbol (objects s4 a)) (last trs) of
                         Inl e \<Rightarrow> Inl e
                       | Inr (u', s5) \<Rightarrow> Inr (trs, s5))
                 else Inr (trs, s4)))"
  by (simp add: process_order_def stored_state_def Let_def)

lemma state_of_Inl [simp]: "state_of (Inl e) = snd e"
  by (cases e) simp

lemma state_of_Inr [simp]: "state_of (Inr r) = snd r"
  by (cases r) simp

lemma process_order_stages:
  assumes rej: "\<not> validate_order (objects s a) \<Longrightarrow>
                  P (s\<lparr>objects := (objects s)(a := (objects s a)\<lparr>status := REJECTED\<rparr>)\<rparr>)"
      and st: "validate_order (objects s a) \<Longrightarrow> P (stored_state now s a)"
      and m: "\<And>s'. P s' \<Longrightarrow> P (state_of (match_order now s' a))"
      and ad: "\<And>s'. P s' \<Longrightarrow> P (state_of (add_to_orderbook now s' a))"
      and md: "\<And>s' k t. P s' \<Longrightarrow> P (state_of (update_market_data now s' k t))"
  shows "P (state_of (process_order now s a))"
proof (cases "validate_order (objects s a)")
  case False
  then show ?thesis using rej by (simp add: process_order_rejected)
next
  case True
  define s2 where "s2 = stored_state now s a"
  have p3: "P (state_of (match_order now s2 a))"
    using st[OF True] m by (simp add: s2_def)
  note po = process_order_valid[OF True, of now, folded s2_def]
  show ?thesis
  proof (cases "match_order now s2 a")
    case (Inl e)
    then have "state_of (process_order now s a) = state_of (match_order now s2 a)"
      by (simp add: po)
    then show ?thesis using p3 by simp
  next
    case (Inr r)
    obtain trs s3 where r: "r = (trs, s3)" by (cases r)
    have s3: "P s3" using p3 Inr r by simp
    let ?r2 = "if status (objects s3 a) \<noteq> FILLED then add_to_orderbook now s3 a
               else Inr ((), s3)"
    have p4: "P (state_of ?r2)" using s3 ad by simp
    show ?thesis
    proof (cases ?r2)
      case (Inl e)
      then have "state_of (process_order now s a) = state_of ?r2"
        using Inr r by (simp add: po)
      then show ?thesis using p4 by simp
    next
      case r2: (Inr q)
      obtain u s4 where q: "q = (u, s4)" by (cases q)
      have s4: "P s4" using p4 r2 q by simp
      show ?thesis
      proof (cases "trs = []")
        case True
        then have "state_of (process_order now s a) = s4"
          using Inr r r2 q by (simp add: po)
        then show ?thesis using s4 by simp
      next
        case False
        then have "state_of (process_order now s a)
                     = state_of (update_market_data now s4 (symbol (objects s4 a)) (last trs))"
          using Inr r r2 q by (simp add: po split: sum.splits)
        then show ?thesis using s4 md by simp
      qed
    qed
  qed
qed

lemma inv_stored_state:
  assumes inv: "engine_inv h0 s" and v: "validate_order (objects s a)"
  shows "engine_inv h0 (stored_state now s a)"
proof -
  have id: "same_ident (h0 a) (objects s a)" using inv by (rule inv_identD)
  then have eqs: "symbol (objects s a) = symbol (h0 a)" "oid (objects s a) = oid (h0 a)"
    by (simp_all add: same_ident_def)
  have v0: "validate_order (h0 a)" using v validate_order_ident[OF id] by simp
  define s1 where "s1 = (case order_books s (symbol (objects s a)) of
                  None \<Rightarrow> s\<lparr>order_books := (order_books s)(symbol (objects s a) \<mapsto>
                               \<lparr>ob_symbol = symbol (objects s a), bids = [], asks = [],
                                last_updated = now\<rparr>)\<rparr>
                | Some orderbook \<Rightarrow> s)"
  have i1: "engine_inv h0 s1"
    using inv by (simp add: s1_def inv_book_upd split: option.splits)
  have b1: "order_books s1 (symbol (h0 a)) \<noteq> None"
    by (simp add: s1_def eqs split: option.splits)
  have "stored_state now s a
          = s1\<lparr>active_orders := AList.update (oid (objects s a)) a (active_orders s1)\<rparr>"
    by (simp add: stored_state_def Let_def s1_def)
  then show ?thesis using inv_active[OF i1 v0 b1] by (simp add: eqs)
qed

lemma inv_process_order:
  assumes inv: "engine_inv h0 s"
  shows "engine_inv h0 (state_of (process_order now s a))"
proof (rule process_order_stages)
  assume "\<not> validate_order (objects s a)"
  show "engine_inv h0 (s\<lparr>objects := (objects s)(a := (objects s a)\<lparr>status := REJECTED\<rparr>)\<rparr>)"
    by (rule inv_objects[OF inv]) (auto simp: same_ident_def filled_ok_def)
next
  assume "validate_order (objects s a)"
  then show "engine_inv h0 (stored_state now s a)" by (rule inv_stored_state[OF inv])
qed (simp_all add: inv_match_order inv_add_to_orderbook inv_update_market_data)

lemma inv_cancel_order:
  assumes inv: "engine_inv h0 s"
  shows "engine_inv h0 (state_of (cancel_order now s k u))"
proof (cases "map_of (active_orders s) k")
  case None
  then show ?thesis using inv by (simp add: cancel_order_def)
next
  case (Some a)
  let ?s1 = "s\<lparr>objects := (objects s)(a := (objects s a)\<lparr>status := CANCELLED, updated_at := now\<rparr>)\<rparr>"
  have i1: "engine_inv h0 ?s1"
    by (rule inv_objects[OF inv]) (auto simp: same_ident_def filled_ok_def)
  have "state_of (cancel_order now s k u) = s
        \<or> state_of (cancel_order now s k u) = state_of (remove_from_orderbook now ?s1 a)"
    using Some by (auto simp: cancel_order_def Let_def split: sum.splits)
  then show ?thesis
    using inv inv_remove_from_orderbook[OF i1] by auto
qed

lemma inv_step: "engine_inv h0 s \<Longrightarrow> engine_inv h0 (step s c)"
  by (cases c) (simp_all add: inv_process_order inv_cancel_order)

lemma inv_new_engine: "engine_inv h0 (new_engine h0)"
  by (simp add: engine_inv_def new_engine_def)

lemma run_snoc: "run (cmds @ [c]) s = step (run cmds s) c"
  by (simp add: run_def)

lemma run_Nil: "run [] s = s"
  by (simp add: run_def)

lemma inv_run: "engine_inv h0 (run cmds (new_engine h0))"
  by (induction cmds rule: rev_induct) (simp_all add: run_snoc run_Nil inv_new_engine inv_step)

subsection \<open>The order store and cancellation\<close>

lemma price_matches_not_crossing:
  assumes "price_matches bo so"
  shows "\<not> (order_type bo = LIMIT \<and> order_type so = LIMIT
            \<and> (\<exists>pb ps. price bo = Some pb \<and> price so = Some ps \<and> pb < ps))"
  using assms by (auto simp: price_matches_def split: if_splits)

lemma active_orders_match_order [simp]:
  "active_orders (state_of (match_order now s a)) = active_orders s"
  using match_order_frame[of now s a] by auto

lemma active_orders_snapshot [simp]:
  "active_orders (state_of (update_orderbook_snapshot now s k)) = active_orders s"
  by (simp add: snapshot_state split: option.splits)

lemma active_orders_add [simp]:
  "active_orders (state_of (add_to_orderbook now s a)) = active_orders s"
  by (simp add: add_to_orderbook_def Let_def)

lemma active_orders_remove [simp]:
  "active_orders (state_of (remove_from_orderbook now s a)) = active_orders s"
  by (simp add: remove_from_orderbook_def Let_def)

lemma active_orders_umd [simp]:
  "active_orders (state_of (update_market_data now s k t)) = active_orders s"
  using update_market_data_state[of now s k t] by auto

lemma active_orders_stored [simp]:
  "active_orders (stored_state now s a) = AList.update (oid (objects s a)) a (active_orders s)"
  by (simp add: stored_state_def Let_def split: option.splits)

lemma active_orders_process_order:
  "active_orders (state_of (process_order now s a))
     = (if validate_order (objects s a)
        then AList.update (oid (objects s a)) a (active_orders s) else active_orders s)"
  by (rule process_order_stages) simp_all

lemma cancel_order_state:
  "state_of (cancel_order now s k u) =
     (case map_of (active_orders s) k of
        None \<Rightarrow> s
      | Some a \<Rightarrow>
          if user_id (objects s a) \<noteq> u then s
          else if status (objects s a) \<noteq> PENDING \<and> status (objects s a) \<noteq> PARTIAL then s
          else state_of (remove_from_orderbook now
                 (s\<lparr>objects := (objects s)(a := (objects s a)\<lparr>status := CANCELLED,
                                                               updated_at := now\<rparr>)\<rparr>) a))"
  by (simp add: cancel_order_def Let_def split: option.splits sum.splits)

lemma active_orders_cancel_order [simp]:
  "active_orders (state_of (cancel_order now s k u)) = active_orders s"
  by (simp add: cancel_order_state split: option.splits)

subsection \<open>The order store along a history\<close>

lemma active_orders_step:
  "active_orders (step s c) =
     (case c of
        Submit now a \<Rightarrow> if validate_order (objects s a)
                         then AList.update (oid (objects s a)) a (active_orders s)
                         else active_orders s
      | Cancel now k u \<Rightarrow> active_orders s)"
  by (cases c) (simp_all add: active_orders_process_order)

lemma run_oid [simp]: "oid (objects (run cmds (new_engine h0)) a) = oid (h0 a)"
  using inv_identD[OF inv_run[of h0 cmds], where x = a] by (simp add: same_ident_def)

lemma run_user_id [simp]: "user_id (objects (run cmds (new_engine h0)) a) = user_id (h0 a)"
  using inv_identD[OF inv_run[of h0 cmds], where x = a] by (simp add: same_ident_def)

lemma run_validate [simp]:
  "validate_order (objects (run cmds (new_engine h0)) a) = validate_order (h0 a)"
  using validate_order_ident[OF inv_identD[OF inv_run[of h0 cmds], where x = a]] by simp

lemma stored_was_submitted:
  "map_of (active_orders (run cmds (new_engine h0))) k = Some a \<Longrightarrow>
     \<exists>now. Submit now a \<in> set cmds"
proof (induction cmds rule: rev_induct)
  case Nil
  then show ?case by (simp add: run_Nil new_engine_def)
next
  case (snoc c cmds)
  show ?case
  proof (cases c)
    case (Submit now x)
    show ?thesis
    proof (cases "validate_order (h0 x) \<and> k = oid (h0 x)")
      case True
      then have "a = x"
        using snoc.prems Submit
        by (simp add: run_snoc active_orders_process_order update_conv')
      then show ?thesis using Submit by auto
    next
      case False
      then have "map_of (active_orders (run cmds (new_engine h0))) k = Some a"
        using snoc.prems Submit
        by (auto simp: run_snoc active_orders_process_order update_conv' split: if_splits)
      from snoc.IH[OF this] show ?thesis by auto
    qed
  next
    case (Cancel now k' u)
    then have "map_of (active_orders (run cmds (new_engine h0))) k = Some a"
      using snoc.prems by (simp add: run_snoc)
    from snoc.IH[OF this] show ?thesis by auto
  qed
qed

lemma accepted_stays_stored:
  assumes "Submit now a \<in> set cmds" and "validate_order (h0 a)"
      and "\<forall>now' a'. Submit now' a' \<in> set cmds \<and> oid (h0 a') = oid (h0 a) \<longrightarrow> a' = a"
  shows "map_of (active_orders (run cmds (new_engine h0))) (oid (h0 a)) = Some a"
  using assms
proof (induction cmds rule: rev_induct)
  case Nil
  then show ?case by simp
next
  case (snoc c cmds)
  have uniq: "\<forall>now' a'. Submit now' a' \<in> set cmds \<and> oid (h0 a') = oid (h0 a) \<longrightarrow> a' = a"
    using snoc.prems(3) by auto
  show ?case
  proof (cases "Submit now a \<in> set cmds")
    case True
    from snoc.IH[OF True snoc.prems(2) uniq]
    have ih: "map_of (active_orders (run cmds (new_engine h0))) (oid (h0 a)) = Some a" .
    show ?thesis
    proof (cases c)
      case (Submit now' a')
      have "oid (h0 a') = oid (h0 a) \<Longrightarrow> a' = a"
        using snoc.prems(3) Submit by auto
      then show ?thesis
        using ih Submit
        by (auto simp: run_snoc active_orders_process_order update_conv')
    next
      case (Cancel now' k' u)
      then show ?thesis using ih by (simp add: run_snoc)
    qed
  next
    case False
    then have "c = Submit now a" using snoc.prems(1) by auto
    then show ?thesis
      using snoc.prems(2)
      by (simp add: run_snoc active_orders_process_order update_conv')
  qed
qed

lemma snapshot_cong:
  assumes "objects s = objects s'" "orders_by_symbol s = orders_by_symbol s'"
  shows "snapshot_bids s k = snapshot_bids s' k" "snapshot_asks s k = snapshot_asks s' k"
  using assms by (simp_all add: snapshot_bids_def snapshot_asks_def)

subsection \<open>Market data along process_order\<close>


lemma market_data_match_order [simp]:
  "market_data (state_of (match_order now s a)) = market_data s"
  using match_order_frame[of now s a] by auto

lemma symbol_match_order [simp]:
  "symbol (objects (state_of (match_order now s a)) x) = symbol (objects s x)"
proof -
  obtain h' new where
    "state_of (match_order now s a) = s\<lparr>objects := h', trades := trades s @ new\<rparr>"
    "\<forall>x. same_ident (objects s x) (h' x)"
    using match_order_frame[of now s a] by blast
  then show ?thesis by (simp add: same_ident_def)
qed

lemma market_data_add [simp]:
  "market_data (state_of (add_to_orderbook now s a)) = market_data s"
  by (simp add: add_to_orderbook_def Let_def snapshot_state split: option.splits)

lemma objects_add [simp]:
  "objects (state_of (add_to_orderbook now s a)) = objects s"
  by (simp add: add_to_orderbook_def Let_def snapshot_state split: option.splits)

lemma market_data_stored [simp]: "market_data (stored_state now s a) = market_data s"
  by (simp add: stored_state_def Let_def split: option.splits)

lemma objects_stored [simp]: "objects (stored_state now s a) = objects s"
  by (simp add: stored_state_def Let_def split: option.splits)




subsection \<open>Facts about the examples\<close>

lemma book_resting_state:
  "book_resting =
     \<lparr>objects = orders_book,
      order_books = [''X/Y'' \<mapsto> \<lparr>ob_symbol = ''X/Y'', bids = [(99, 1), (98, 2)],
                                asks = [(101, 2), (102, 3)], last_updated = 5\<rparr>],
      active_orders = [(''b1'', 0), (''b2'', 1), (''s1'', 2), (''s2'', 3), (''s3'', 4)],
      orders_by_symbol = (\<lambda>_. \<lparr>buy_orders = [], sell_orders = []\<rparr>)
         (''X/Y'' := \<lparr>buy_orders = [0, 1], sell_orders = [2, 3, 4]\<rparr>),
      trades = [], market_data = Map.empty\<rparr>"
  by (simp add: book_resting_def engine_defs orders_book_def)

lemma orders_book_fields:
  "map (\<lambda>a. (oid (orders_book a), user_id (orders_book a), side (orders_book a),
               status (orders_book a), price (orders_book a),
               quantity (orders_book a) - filled_quantity (orders_book a),
               symbol (orders_book a))) [0, 1, 2, 3, 4]
     = [(''b1'', ''C'', BUY, PENDING, Some 99, 1, ''X/Y''),
        (''b2'', ''D'', BUY, PENDING, Some 98, 2, ''X/Y''),
        (''s1'', ''A'', SELL, PENDING, Some 101, 1, ''X/Y''),
        (''s2'', ''B'', SELL, PENDING, Some 101, 1, ''X/Y''),
        (''s3'', ''A'', SELL, PENDING, Some 102, 3, ''X/Y'')]"
  by (simp add: orders_book_def store_def new_order_def)

section \<open>The claims\<close>

subsection \<open>C1: the candidates of matching\<close>

text \<open>
  Claim C1 says that the candidates are the resting orders of the opposite side with
  status Pending or Partial. Both matching functions filter with
  \<open>o.status == OrderStatus.PENDING\<close>; \<open>cancel_order\<close>, in contrast, accepts
  \<open>PENDING\<close> and \<open>PARTIAL\<close>. The evaluation: after a sell of 1 at 100 and a buy of
  0.8 at 100 the sell rests with status \<open>PARTIAL\<close> and 0.2 remaining; it is in the sell
  list but not among the candidates, and a further buy of 0.2 at 100, although price
  compatible with it, produces no trade and rests.
\<close>

theorem partial_order_not_matched:
  "status (objects partial_resting 0) = PARTIAL
   \<and> quantity (objects partial_resting 0) - filled_quantity (objects partial_resting 0) = 1 / 5
   \<and> sell_orders (orders_by_symbol partial_resting ''X/Y'') = [0]
   \<and> sell_candidates partial_resting ''X/Y'' = []
   \<and> price_matches (objects partial_resting 2) (objects partial_resting 0)
   \<and> process_order 3 partial_resting 2
       = Inr ([], state_of (process_order 3 partial_resting 2))
   \<and> status (objects (state_of (process_order 3 partial_resting 2)) 2) = PENDING
   \<and> filled_quantity (objects (state_of (process_order 3 partial_resting 2)) 0) = 4 / 5"
  by (simp add: partial_resting_def engine_defs orders_partial_def)

subsection \<open>C2: the book and the resting orders\<close>

text \<open>
  Claim C2 says that after every operation each level of the book is the sum of the
  remaining quantities of the Pending and Partial resting orders at that price, and
  that the book is recomputed after every insert, fill and cancel. \<open>process_order\<close>
  recomputes the snapshot only in \<open>_add_to_orderbook\<close>, that is when the incoming order
  is not filled, and \<open>_update_orderbook_snapshot\<close> counts the orders of status
  \<open>PENDING\<close> only. The evaluation: after a sell of 1 at 100 and a buy of 1 at 100 both
  orders are filled, yet the book still has the ask level \<open>(100, 1)\<close>, where a
  recomputation gives no level; and after the sell of 1, the buy of 0.8 and the buy of
  0.2 at 100 the sell rests with status \<open>PARTIAL\<close> and 0.2 remaining at 100, yet the
  freshly recomputed book has no ask level.
\<close>

theorem book_differs_from_resting_orders:
  "status (objects full_done 0) = FILLED \<and> status (objects full_done 1) = FILLED
   \<and> sell_orders (orders_by_symbol full_done ''X/Y'') = [0]
   \<and> map_option asks (order_books full_done ''X/Y'') = Some [(100, 1)]
   \<and> snapshot_asks full_done ''X/Y'' = []
   \<and> status (objects (state_of (process_order 3 partial_resting 2)) 0) = PARTIAL
   \<and> price (objects (state_of (process_order 3 partial_resting 2)) 0) = Some 100
   \<and> quantity (objects (state_of (process_order 3 partial_resting 2)) 0)
       - filled_quantity (objects (state_of (process_order 3 partial_resting 2)) 0) = 1 / 5
   \<and> sell_orders (orders_by_symbol (state_of (process_order 3 partial_resting 2)) ''X/Y'') = [0]
   \<and> map_option asks (order_books (state_of (process_order 3 partial_resting 2)) ''X/Y'')
       = Some []"
  by (simp add: full_done_def partial_resting_def engine_defs orders_partial_def orders_full_def)

subsection \<open>C3: the execution price\<close>

text \<open>
  Claim C3 says that a market order on either side gives the trade the other side's
  limit price, also when both legs are market orders. \<open>_execute_trade\<close> tests the buy
  order first: whenever the buy order is a market order the trade takes the price field
  of the sell order, whatever the type of the sell order. A market order may carry a
  price (the field is optional for every order type and \<open>_validate_order\<close> checks it
  for limit orders only), so with two priced market orders the trade takes the market
  sell's own price and not the buy's, which is the price of the other side of the sell.
  Below, a market sell priced 7 rests and a market buy priced 5 arrives: the one trade
  executes at 7.
\<close>

theorem both_market_takes_sell_price:
  "side (objects market_priced_resting 1) = BUY
   \<and> order_type (objects market_priced_resting 1) = MARKET
   \<and> price (objects market_priced_resting 1) = Some 5
   \<and> side (objects market_priced_resting 0) = SELL
   \<and> order_type (objects market_priced_resting 0) = MARKET
   \<and> price (objects market_priced_resting 0) = Some 7
   \<and> sell_orders (orders_by_symbol market_priced_resting ''X/Y'') = [0]
   \<and> map (\<lambda>t. (buy_order_id t, sell_order_id t, t_price t))
        (fst (projr (process_order 2 market_priced_resting 1)))
       = [(''b1'', ''s1'', Some 7)]
   \<and> price (objects market_priced_resting 1) \<noteq> Some 7"
  by (simp add: market_priced_resting_def engine_defs orders_market_priced_def)

text \<open>
  Claim C3, amended. When \<open>_execute_trade\<close> produces a trade: if the buy order is a
  market order, the trade price is the price of the sell order (also when the sell
  order is a market order too); if the sell order is a market order and the buy order
  is not, it is the price of the buy order; if neither is a market order, in particular
  for two limit orders, it is the price of the order that was created earlier. The only
  hypothesis is that a trade was produced. On equal creation times the source takes the
  sell order's price; the claim is silent there and so is the statement.
\<close>

theorem execution_price_rule:
  assumes "execute_trade now s b a = Inr (Some t, s')"
  shows "(order_type (objects s b) = MARKET \<longrightarrow> t_price t = price (objects s a))
       \<and> (order_type (objects s b) \<noteq> MARKET \<and> order_type (objects s a) = MARKET
            \<longrightarrow> t_price t = price (objects s b))
       \<and> (order_type (objects s b) \<noteq> MARKET \<and> order_type (objects s a) \<noteq> MARKET \<longrightarrow>
            (created_at (objects s b) < created_at (objects s a)
               \<longrightarrow> t_price t = price (objects s b))
          \<and> (created_at (objects s a) < created_at (objects s b)
               \<longrightarrow> t_price t = price (objects s a)))"
proof -
  have "t_price t = trade_price_of (objects s b) (objects s a)"
    using execute_trade_SomeD[OF assms(1)] by (auto simp: trade_between_def)
  then show ?thesis
    by (auto simp: trade_price_of_def)
qed

text \<open>
  The rule at four pairs of one store, one for each case: market buy against limit
  sell (price of the sell, 100), limit buy against market sell (price of the buy, 101),
  limit buy against an earlier limit sell (price of the sell, 100), limit buy against
  a later limit sell (price of the buy, 101).
\<close>

theorem execution_price_rule_witness:
  "order_type (orders_pricing 0) = MARKET
   \<and> execute_trade 9 (new_engine orders_pricing) 0 1
       = Inr (Some (the (fst (projr (execute_trade 9 (new_engine orders_pricing) 0 1)))),
              snd (projr (execute_trade 9 (new_engine orders_pricing) 0 1)))
   \<and> t_price (the (fst (projr (execute_trade 9 (new_engine orders_pricing) 0 1))))
       = price (orders_pricing 1)
   \<and> price (orders_pricing 1) = Some 100
   \<and> order_type (orders_pricing 2) = LIMIT \<and> order_type (orders_pricing 3) = MARKET
   \<and> execute_trade 9 (new_engine orders_pricing) 2 3
       = Inr (Some (the (fst (projr (execute_trade 9 (new_engine orders_pricing) 2 3)))),
              snd (projr (execute_trade 9 (new_engine orders_pricing) 2 3)))
   \<and> t_price (the (fst (projr (execute_trade 9 (new_engine orders_pricing) 2 3))))
       = price (orders_pricing 2)
   \<and> price (orders_pricing 2) = Some 101
   \<and> order_type (orders_pricing 1) = LIMIT
   \<and> created_at (orders_pricing 1) < created_at (orders_pricing 2)
   \<and> execute_trade 9 (new_engine orders_pricing) 2 1
       = Inr (Some (the (fst (projr (execute_trade 9 (new_engine orders_pricing) 2 1)))),
              snd (projr (execute_trade 9 (new_engine orders_pricing) 2 1)))
   \<and> t_price (the (fst (projr (execute_trade 9 (new_engine orders_pricing) 2 1))))
       = price (orders_pricing 1)
   \<and> order_type (orders_pricing 4) = LIMIT
   \<and> created_at (orders_pricing 2) < created_at (orders_pricing 4)
   \<and> execute_trade 9 (new_engine orders_pricing) 2 4
       = Inr (Some (the (fst (projr (execute_trade 9 (new_engine orders_pricing) 2 4)))),
              snd (projr (execute_trade 9 (new_engine orders_pricing) 2 4)))
   \<and> t_price (the (fst (projr (execute_trade 9 (new_engine orders_pricing) 2 4))))
       = price (orders_pricing 2)"
proof -
  have o: "objects (new_engine orders_pricing) = orders_pricing"
    by (simp add: new_engine_def)
  have f: "order_type (orders_pricing 0) = MARKET" "price (orders_pricing 1) = Some 100"
      "order_type (orders_pricing 2) = LIMIT" "order_type (orders_pricing 3) = MARKET"
      "price (orders_pricing 2) = Some 101" "order_type (orders_pricing 1) = LIMIT"
      "created_at (orders_pricing 1) < created_at (orders_pricing 2)"
      "order_type (orders_pricing 4) = LIMIT"
      "created_at (orders_pricing 2) < created_at (orders_pricing 4)"
    by (simp_all add: orders_pricing_def store_def new_order_def)
  have e01: "execute_trade 9 (new_engine orders_pricing) 0 1
       = Inr (Some (the (fst (projr (execute_trade 9 (new_engine orders_pricing) 0 1)))),
              snd (projr (execute_trade 9 (new_engine orders_pricing) 0 1)))"
    by (simp add: engine_defs orders_pricing_def)
  have e23: "execute_trade 9 (new_engine orders_pricing) 2 3
       = Inr (Some (the (fst (projr (execute_trade 9 (new_engine orders_pricing) 2 3)))),
              snd (projr (execute_trade 9 (new_engine orders_pricing) 2 3)))"
    by (simp add: engine_defs orders_pricing_def)
  have e21: "execute_trade 9 (new_engine orders_pricing) 2 1
       = Inr (Some (the (fst (projr (execute_trade 9 (new_engine orders_pricing) 2 1)))),
              snd (projr (execute_trade 9 (new_engine orders_pricing) 2 1)))"
    by (simp add: engine_defs orders_pricing_def)
  have e24: "execute_trade 9 (new_engine orders_pricing) 2 4
       = Inr (Some (the (fst (projr (execute_trade 9 (new_engine orders_pricing) 2 4)))),
              snd (projr (execute_trade 9 (new_engine orders_pricing) 2 4)))"
    by (simp add: engine_defs orders_pricing_def)
  have p01: "t_price (the (fst (projr (execute_trade 9 (new_engine orders_pricing) 0 1))))
       = price (orders_pricing 1)"
    using execution_price_rule[OF e01, THEN conjunct1] f(1) unfolding o by simp
  have p23: "t_price (the (fst (projr (execute_trade 9 (new_engine orders_pricing) 2 3))))
       = price (orders_pricing 2)"
    using execution_price_rule[OF e23, THEN conjunct2, THEN conjunct1] f(3,4) unfolding o by simp
  have p21: "t_price (the (fst (projr (execute_trade 9 (new_engine orders_pricing) 2 1))))
       = price (orders_pricing 1)"
    using execution_price_rule[OF e21, THEN conjunct2, THEN conjunct2] f(3,6,7) unfolding o
    by simp
  have p24: "t_price (the (fst (projr (execute_trade 9 (new_engine orders_pricing) 2 4))))
       = price (orders_pricing 2)"
    using execution_price_rule[OF e24, THEN conjunct2, THEN conjunct2] f(3,8,9) unfolding o
    by simp
  show ?thesis
    by (intro conjI f e01 e23 e21 e24 p01 p23 p21 p24)
qed

subsection \<open>C4: price-time priority\<close>

text \<open>
  Claim C4 says that matching goes through the resting orders of the opposite side in
  price-time priority. Both matching functions sort by price and creation time, but
  they sort the list left by the filter \<open>o.status == OrderStatus.PENDING\<close>: a resting
  order that was partially filled is not in it, whatever its price. The evaluation:
  a sell of 1 at 100 is half filled and rests \<open>PARTIAL\<close> with 0.5 remaining, a sell of
  1 at 101 rests \<open>PENDING\<close>; an incoming buy of 0.5 at 101 is price compatible with
  both, and trades with the sell at 101, at 101, while the sell at 100 stays untouched.
  The same on the other side: a bid at 101, half filled, and a bid at 100; an incoming
  sell of 0.5 at 100 trades with the bid at 100.
\<close>

theorem best_priced_partial_order_skipped:
  "sell_orders (orders_by_symbol skipped_ask_resting ''X/Y'') = [0, 2]
   \<and> map (\<lambda>a. (status (objects skipped_ask_resting a), price (objects skipped_ask_resting a),
                quantity (objects skipped_ask_resting a)
                  - filled_quantity (objects skipped_ask_resting a))) [0, 2]
       = [(PARTIAL, Some 100, 1 / 2), (PENDING, Some 101, 1)]
   \<and> price_matches (objects skipped_ask_resting 3) (objects skipped_ask_resting 0)
   \<and> sell_candidates skipped_ask_resting ''X/Y'' = [2]
   \<and> map (\<lambda>t. (buy_order_id t, sell_order_id t, t_quantity t, t_price t))
        (fst (projr (process_order 4 skipped_ask_resting 3)))
       = [(''b2'', ''s2'', 1 / 2, Some 101)]
   \<and> filled_quantity (objects (state_of (process_order 4 skipped_ask_resting 3)) 0) = 1 / 2
   \<and> buy_orders (orders_by_symbol skipped_bid_resting ''X/Y'') = [0, 2]
   \<and> map (\<lambda>a. (status (objects skipped_bid_resting a), price (objects skipped_bid_resting a),
                quantity (objects skipped_bid_resting a)
                  - filled_quantity (objects skipped_bid_resting a))) [0, 2]
       = [(PARTIAL, Some 101, 1 / 2), (PENDING, Some 100, 1)]
   \<and> price_matches (objects skipped_bid_resting 0) (objects skipped_bid_resting 3)
   \<and> buy_candidates skipped_bid_resting ''X/Y'' = [2]
   \<and> map (\<lambda>t. (buy_order_id t, sell_order_id t, t_quantity t, t_price t))
        (fst (projr (process_order 4 skipped_bid_resting 3)))
       = [(''b2'', ''s2'', 1 / 2, Some 100)]
   \<and> filled_quantity (objects (state_of (process_order 4 skipped_bid_resting 3)) 0) = 1 / 2"
  by (simp add: skipped_ask_resting_def skipped_bid_resting_def engine_defs
      orders_skipped_ask_def orders_skipped_bid_def)

subsection \<open>C5: validation fails closed\<close>

text \<open>
  Claim C5, as amended. For every submitted order with quantity \<open>\<le> 0\<close>, or of limit
  type without a positive price, \<open>process_order\<close> sets the order's status to
  \<open>REJECTED\<close>, returns the empty trade list, raises no exception and leaves every
  container of the engine as it was. (\<open>_validate_order\<close> tests the price of limit
  orders only: a stop order is not covered.)
\<close>

theorem validation_fails_closed:
  assumes "quantity (objects s a) \<le> 0
           \<or> (order_type (objects s a) = LIMIT
               \<and> \<not> (\<exists>p. price (objects s a) = Some p \<and> 0 < p))"
  shows "process_order now s a
           = Inr ([], s\<lparr>objects := (objects s)(a := (objects s a)\<lparr>status := REJECTED\<rparr>)\<rparr>)"
proof -
  have "\<not> validate_order (objects s a)"
    using assms by (auto simp: validate_order_def price_invalid_def split: option.splits)
  then show ?thesis by (rule process_order_rejected)
qed

text \<open>An order of quantity 0 is rejected by a new engine.\<close>

theorem validation_fails_closed_witness:
  "quantity (objects (new_engine orders_stop) 1) \<le> 0
   \<and> process_order 2 (new_engine orders_stop) 1
       = Inr ([], (new_engine orders_stop)\<lparr>objects := (objects (new_engine orders_stop))
                    (1 := (objects (new_engine orders_stop) 1)\<lparr>status := REJECTED\<rparr>)\<rparr>)"
  using validation_fails_closed[of "new_engine orders_stop" 1 2]
  by (simp add: new_engine_def orders_stop_def store_def new_order_def)

text \<open>
  Counterexample to C5 as stated: a stop order without a price passes validation; it
  stays \<open>PENDING\<close>, is stored in \<open>active_orders\<close> and rests in the sell list.
\<close>

theorem stop_order_without_price_accepted:
  "order_type (orders_stop 0) = STOP \<and> price (orders_stop 0) = None
   \<and> process_order 1 (new_engine orders_stop) 0 \<noteq>
       Inr ([], (new_engine orders_stop)\<lparr>objects := (objects (new_engine orders_stop))
                    (0 := (objects (new_engine orders_stop) 0)\<lparr>status := REJECTED\<rparr>)\<rparr>)
   \<and> status (objects (state_of (process_order 1 (new_engine orders_stop) 0)) 0) = PENDING
   \<and> active_orders (state_of (process_order 1 (new_engine orders_stop) 0)) = [(''p1'', 0)]
   \<and> sell_orders (orders_by_symbol (state_of (process_order 1 (new_engine orders_stop) 0)) ''X/Y'') = [0]"
  by (simp add: engine_defs orders_stop_def)

subsection \<open>C7: cancellation\<close>

text \<open>
  Claim C7. In every state \<open>S\<close> that a new engine reaches, \<open>cancel_order\<close> returns
  \<open>False\<close> and leaves the state as it is when the id is unknown, when the requesting
  user is not the owner, or when the status is neither \<open>PENDING\<close> nor \<open>PARTIAL\<close>.
  Otherwise it returns \<open>True\<close> without raising, and in the new state the order has
  status \<open>CANCELLED\<close> and \<open>updated_at = now\<close>; the resting list of its side and symbol
  is the old one without the orders that carry the cancelled id, in the old order, and
  every other resting list is as before, so that the order is in no resting list; the
  book of its symbol holds the snapshot computed from the new resting lists and the new
  store, with \<open>last_updated = now\<close>, and the other books are as before; the registry
  of orders, the trade history and the market data are untouched.
\<close>

theorem cancel_order_contract:
  assumes S: "S = run cmds (new_engine h0)"
  shows "(map_of (active_orders S) k = None \<longrightarrow> cancel_order now S k u = Inr (False, S))
       \<and> (\<forall>a. map_of (active_orders S) k = Some a \<longrightarrow>
            (user_id (objects S a) \<noteq> u
               \<or> (status (objects S a) \<noteq> PENDING \<and> status (objects S a) \<noteq> PARTIAL)
             \<longrightarrow> cancel_order now S k u = Inr (False, S))
          \<and> (user_id (objects S a) = u
               \<and> (status (objects S a) = PENDING \<or> status (objects S a) = PARTIAL)
             \<longrightarrow> (\<exists>S' ob.
                    cancel_order now S k u = Inr (True, S')
                  \<and> objects S' = (objects S)(a := (objects S a)\<lparr>status := CANCELLED,
                                                                 updated_at := now\<rparr>)
                  \<and> orders_by_symbol S' = (orders_by_symbol S)(symbol (objects S a) :=
                       (if side (objects S a) = BUY
                        then (orders_by_symbol S (symbol (objects S a)))
                               \<lparr>buy_orders := filter (\<lambda>x. oid (objects S x) \<noteq> k)
                                  (buy_orders (orders_by_symbol S (symbol (objects S a))))\<rparr>
                        else (orders_by_symbol S (symbol (objects S a)))
                               \<lparr>sell_orders := filter (\<lambda>x. oid (objects S x) \<noteq> k)
                                  (sell_orders (orders_by_symbol S (symbol (objects S a))))\<rparr>))
                  \<and> (\<forall>k'. a \<notin> set (buy_orders (orders_by_symbol S' k'))
                          \<and> a \<notin> set (sell_orders (orders_by_symbol S' k')))
                  \<and> order_books S (symbol (objects S a)) = Some ob
                  \<and> order_books S' = (order_books S)(symbol (objects S a) \<mapsto>
                        ob\<lparr>bids := snapshot_bids S' (symbol (objects S a)),
                           asks := snapshot_asks S' (symbol (objects S a)),
                           last_updated := now\<rparr>)
                  \<and> active_orders S' = active_orders S \<and> trades S' = trades S
                  \<and> market_data S' = market_data S)))"
proof (intro conjI allI impI)
  assume "map_of (active_orders S) k = None"
  then show "cancel_order now S k u = Inr (False, S)" by (simp add: cancel_order_def)
next
  fix a
  assume "map_of (active_orders S) k = Some a"
     and "user_id (objects S a) \<noteq> u
            \<or> (status (objects S a) \<noteq> PENDING \<and> status (objects S a) \<noteq> PARTIAL)"
  then show "cancel_order now S k u = Inr (False, S)"
    by (auto simp: cancel_order_def Let_def)
next
  fix a
  assume m: "map_of (active_orders S) k = Some a"
     and ok: "user_id (objects S a) = u
               \<and> (status (objects S a) = PENDING \<or> status (objects S a) = PARTIAL)"
  have inv: "engine_inv h0 S" unfolding S by (rule inv_run)
  define sy where "sy = symbol (objects S a)"
  define s1 where "s1 = S\<lparr>objects := (objects S)(a := (objects S a)\<lparr>status := CANCELLED,
                                                                 updated_at := now\<rparr>)\<rparr>"
  define keep where "keep = (\<lambda>x. oid (objects s1 x) \<noteq> oid (objects s1 a))"
  define s2 where "s2 = s1\<lparr>orders_by_symbol := (orders_by_symbol s1)(sy :=
                  (if side (objects s1 a) = BUY
                   then (orders_by_symbol s1 sy)\<lparr>buy_orders := filter keep (buy_orders (orders_by_symbol s1 sy))\<rparr>
                   else (orders_by_symbol s1 sy)\<lparr>sell_orders := filter keep (sell_orders (orders_by_symbol s1 sy))\<rparr>))\<rparr>"
  have id: "same_ident (h0 a) (objects S a)" using inv by (rule inv_identD)
  have act: "(k, a) \<in> set (active_orders S)" using m by (rule map_of_SomeD)
  from inv_activeD[OF inv act] have "order_books S (symbol (h0 a)) \<noteq> None" by simp
  then obtain ob where ob: "order_books S sy = Some ob"
    using id by (auto simp: sy_def same_ident_def)
  have ka: "oid (objects S a) = k"
    using inv_activeD[OF inv act] id by (simp add: same_ident_def)
  have keep: "keep = (\<lambda>x. oid (objects S x) \<noteq> k)"
    unfolding keep_def using ka by (auto simp: s1_def fun_eq_iff)
  define S' where "S' = s2\<lparr>order_books := (order_books s2)(sy \<mapsto>
                        ob\<lparr>bids := snapshot_bids s2 sy, asks := snapshot_asks s2 sy,
                           last_updated := now\<rparr>)\<rparr>"
  have sy1: "symbol (objects s1 a) = sy" by (simp add: s1_def sy_def)
  have c: "cancel_order now S k u =
             (case remove_from_orderbook now s1 a of Inl e \<Rightarrow> Inl e
              | Inr (u', s') \<Rightarrow> Inr (True, s'))"
    using m ok by (auto simp: cancel_order_def Let_def s1_def)
  have r: "remove_from_orderbook now s1 a = update_orderbook_snapshot now s2 sy"
    by (simp add: remove_from_orderbook_def Let_def sy1 s2_def keep_def)
  have b2: "order_books s2 sy = Some ob" using ob by (simp add: s2_def s1_def)
  have "update_orderbook_snapshot now s2 sy = Inr ((), S')"
    by (simp add: update_orderbook_snapshot_def b2 S'_def)
  then have res: "cancel_order now S k u = Inr (True, S')" by (simp add: c r)
  have o': "objects S' = (objects S)(a := (objects S a)\<lparr>status := CANCELLED,
                                                                 updated_at := now\<rparr>)"
    by (simp add: S'_def s2_def s1_def)
  have snap: "snapshot_bids S' sy = snapshot_bids s2 sy" "snapshot_asks S' sy = snapshot_asks s2 sy"
    by (rule snapshot_cong; simp add: S'_def)+
  have books: "order_books S' = (order_books S)(sy \<mapsto>
                        ob\<lparr>bids := snapshot_bids S' sy, asks := snapshot_asks S' sy,
                           last_updated := now\<rparr>)"
    unfolding snap by (simp add: S'_def s2_def s1_def)
  have obs: "orders_by_symbol S' = (orders_by_symbol S)(sy :=
                  (if side (objects S a) = BUY
                   then (orders_by_symbol S sy)\<lparr>buy_orders := filter keep (buy_orders (orders_by_symbol S sy))\<rparr>
                   else (orders_by_symbol S sy)\<lparr>sell_orders := filter keep (sell_orders (orders_by_symbol S sy))\<rparr>))"
    by (simp add: S'_def s2_def s1_def)
  have lists: "a \<notin> set (buy_orders (orders_by_symbol S' k'))
             \<and> a \<notin> set (sell_orders (orders_by_symbol S' k'))" for k'
  proof -
    have nk: "\<not> keep a" by (simp add: keep_def)
    have sa: "side (h0 a) = side (objects S a)" "symbol (h0 a) = sy"
      using id by (simp_all add: same_ident_def sy_def)
    have nb: "a \<notin> set (buy_orders (orders_by_symbol S' k'))"
    proof
      assume in': "a \<in> set (buy_orders (orders_by_symbol S' k'))"
      then have "a \<in> set (buy_orders (orders_by_symbol S k'))"
        unfolding obs by (auto split: if_splits)
      from inv_buyD[OF inv this] have "side (objects S a) = BUY" "k' = sy"
        using sa by simp_all
      then show False using in' nk unfolding obs by simp
    qed
    have ns: "a \<notin> set (sell_orders (orders_by_symbol S' k'))"
    proof
      assume in': "a \<in> set (sell_orders (orders_by_symbol S' k'))"
      then have "a \<in> set (sell_orders (orders_by_symbol S k'))"
        unfolding obs by (auto split: if_splits)
      from inv_sellD[OF inv this] have "side (objects S a) = SELL" "k' = sy"
        using sa by simp_all
      then show False using in' nk unfolding obs by simp
    qed
    from nb ns show ?thesis by simp
  qed
  have rest: "active_orders S' = active_orders S" "trades S' = trades S"
     "market_data S' = market_data S"
    by (simp_all add: S'_def s2_def s1_def)
  show "\<exists>S' ob. cancel_order now S k u = Inr (True, S')
                  \<and> objects S' = (objects S)(a := (objects S a)\<lparr>status := CANCELLED,
                                                                 updated_at := now\<rparr>)
                  \<and> orders_by_symbol S' = (orders_by_symbol S)(symbol (objects S a) :=
                       (if side (objects S a) = BUY
                        then (orders_by_symbol S (symbol (objects S a)))
                               \<lparr>buy_orders := filter (\<lambda>x. oid (objects S x) \<noteq> k)
                                  (buy_orders (orders_by_symbol S (symbol (objects S a))))\<rparr>
                        else (orders_by_symbol S (symbol (objects S a)))
                               \<lparr>sell_orders := filter (\<lambda>x. oid (objects S x) \<noteq> k)
                                  (sell_orders (orders_by_symbol S (symbol (objects S a))))\<rparr>))
                  \<and> (\<forall>k'. a \<notin> set (buy_orders (orders_by_symbol S' k'))
                          \<and> a \<notin> set (sell_orders (orders_by_symbol S' k')))
                  \<and> order_books S (symbol (objects S a)) = Some ob
                  \<and> order_books S' = (order_books S)(symbol (objects S a) \<mapsto>
                        ob\<lparr>bids := snapshot_bids S' (symbol (objects S a)),
                           asks := snapshot_asks S' (symbol (objects S a)),
                           last_updated := now\<rparr>)
                  \<and> active_orders S' = active_orders S \<and> trades S' = trades S
                  \<and> market_data S' = market_data S"
    using res o' lists ob books rest obs[unfolded keep] unfolding sy_def
    by (intro exI[of _ S'] exI[of _ ob]) simp
qed

text \<open>
  A book with bids of 1 at 99 and 2 at 98 and asks of 1 and 1 at 101 and 3 at 102. An
  unknown id and another user's request are refused and change nothing. The owner's
  cancellation of the first ask at 101 leaves the two other asks resting, the asks
  \<open>[(101, 1), (102, 3)]\<close> and the bids as they were; the cancellation of the bid at 98
  leaves the bid at 99 resting, the bids \<open>[(99, 1)]\<close> and the asks as they were. A
  partially filled order is cancelled as well; a filled order is not.
\<close>

theorem cancel_order_contract_witness:
  "map_of (active_orders book_resting) ''zz'' = None
   \<and> cancel_order 9 book_resting ''zz'' ''A'' = Inr (False, book_resting)
   \<and> map_of (active_orders book_resting) ''s1'' = Some 2
   \<and> user_id (objects book_resting 2) = ''A''
   \<and> status (objects book_resting 2) = PENDING
   \<and> cancel_order 9 book_resting ''s1'' ''C'' = Inr (False, book_resting)
   \<and> orders_by_symbol book_resting ''X/Y'' = \<lparr>buy_orders = [0, 1], sell_orders = [2, 3, 4]\<rparr>
   \<and> order_books book_resting ''X/Y''
       = Some \<lparr>ob_symbol = ''X/Y'', bids = [(99, 1), (98, 2)], asks = [(101, 2), (102, 3)],
               last_updated = 5\<rparr>
   \<and> cancel_order 9 book_resting ''s1'' ''A''
       = Inr (True, state_of (cancel_order 9 book_resting ''s1'' ''A''))
   \<and> status (objects (state_of (cancel_order 9 book_resting ''s1'' ''A'')) 2) = CANCELLED
   \<and> updated_at (objects (state_of (cancel_order 9 book_resting ''s1'' ''A'')) 2) = 9
   \<and> orders_by_symbol (state_of (cancel_order 9 book_resting ''s1'' ''A'')) ''X/Y''
       = \<lparr>buy_orders = [0, 1], sell_orders = [3, 4]\<rparr>
   \<and> order_books (state_of (cancel_order 9 book_resting ''s1'' ''A'')) ''X/Y''
       = Some \<lparr>ob_symbol = ''X/Y'', bids = [(99, 1), (98, 2)], asks = [(101, 1), (102, 3)],
               last_updated = 9\<rparr>
   \<and> map_of (active_orders book_resting) ''b2'' = Some 1
   \<and> user_id (objects book_resting 1) = ''D''
   \<and> status (objects book_resting 1) = PENDING
   \<and> cancel_order 9 book_resting ''b2'' ''D''
       = Inr (True, state_of (cancel_order 9 book_resting ''b2'' ''D''))
   \<and> status (objects (state_of (cancel_order 9 book_resting ''b2'' ''D'')) 1) = CANCELLED
   \<and> orders_by_symbol (state_of (cancel_order 9 book_resting ''b2'' ''D'')) ''X/Y''
       = \<lparr>buy_orders = [0], sell_orders = [2, 3, 4]\<rparr>
   \<and> order_books (state_of (cancel_order 9 book_resting ''b2'' ''D'')) ''X/Y''
       = Some \<lparr>ob_symbol = ''X/Y'', bids = [(99, 1)], asks = [(101, 2), (102, 3)],
               last_updated = 9\<rparr>
   \<and> map_of (active_orders partial_resting) ''s1'' = Some 0
   \<and> user_id (objects partial_resting 0) = ''A''
   \<and> status (objects partial_resting 0) = PARTIAL
   \<and> cancel_order 9 partial_resting ''s1'' ''A''
       = Inr (True, state_of (cancel_order 9 partial_resting ''s1'' ''A''))
   \<and> status (objects (state_of (cancel_order 9 partial_resting ''s1'' ''A'')) 0) = CANCELLED
   \<and> sell_orders (orders_by_symbol (state_of (cancel_order 9 partial_resting ''s1'' ''A''))
        ''X/Y'') = []
   \<and> map_of (active_orders full_done) ''s1'' = Some 0
   \<and> user_id (objects full_done 0) = ''A''
   \<and> status (objects full_done 0) = FILLED
   \<and> cancel_order 9 full_done ''s1'' ''A'' = Inr (False, full_done)"
proof -
  note fs = orders_book_fields[simplified]
  have f: "map_of (active_orders book_resting) ''zz'' = None"
      "map_of (active_orders book_resting) ''s1'' = Some 2"
      "user_id (objects book_resting 2) = ''A''"
      "status (objects book_resting 2) = PENDING"
      "user_id (objects book_resting 2) \<noteq> ''C''"
      "orders_by_symbol book_resting ''X/Y'' = \<lparr>buy_orders = [0, 1], sell_orders = [2, 3, 4]\<rparr>"
      "order_books book_resting ''X/Y''
         = Some \<lparr>ob_symbol = ''X/Y'', bids = [(99, 1), (98, 2)], asks = [(101, 2), (102, 3)],
                 last_updated = 5\<rparr>"
      "map_of (active_orders book_resting) ''b2'' = Some 1"
      "user_id (objects book_resting 1) = ''D''"
      "status (objects book_resting 1) = PENDING"
    by (simp_all add: book_resting_state fs)
  have sy: "symbol (objects book_resting 2) = ''X/Y''" "symbol (objects book_resting 1) = ''X/Y''"
       "side (objects book_resting 2) = SELL" "side (objects book_resting 1) = BUY"
    by (simp_all add: book_resting_state fs)
  have g: "map_of (active_orders partial_resting) ''s1'' = Some 0"
      "user_id (objects partial_resting 0) = ''A''"
      "status (objects partial_resting 0) = PARTIAL"
      "symbol (objects partial_resting 0) = ''X/Y''"
      "side (objects partial_resting 0) = SELL"
      "sell_orders (orders_by_symbol partial_resting ''X/Y'') = [0]"
      "oid (objects partial_resting 0) = ''s1''"
    by (simp_all add: partial_resting_def engine_defs orders_partial_def)
  have h: "map_of (active_orders full_done) ''s1'' = Some 0"
      "user_id (objects full_done 0) = ''A''"
      "status (objects full_done 0) = FILLED"
    by (simp_all add: full_done_def engine_defs orders_full_def)
  note t = cancel_order_contract[OF book_resting_def]
  have a: "cancel_order 9 book_resting ''zz'' ''A'' = Inr (False, book_resting)"
    using t[where k = "''zz''" and now = 9 and u = "''A''", THEN conjunct1] f(1) by simp
  have b: "cancel_order 9 book_resting ''s1'' ''C'' = Inr (False, book_resting)"
    using t[where k = "''s1''" and now = 9 and u = "''C''", THEN conjunct2, rule_format,
            OF f(2), THEN conjunct1] f(5) by simp
  have z: "cancel_order 9 full_done ''s1'' ''A'' = Inr (False, full_done)"
    using cancel_order_contract[OF full_done_def, where k = "''s1''" and now = 9
            and u = "''A''", THEN conjunct2, rule_format, OF h(1), THEN conjunct1] h(3)
    by simp
  have s: "cancel_order 9 book_resting ''s1'' ''A''
             = Inr (True, state_of (cancel_order 9 book_resting ''s1'' ''A''))
         \<and> status (objects (state_of (cancel_order 9 book_resting ''s1'' ''A'')) 2) = CANCELLED
         \<and> updated_at (objects (state_of (cancel_order 9 book_resting ''s1'' ''A'')) 2) = 9
         \<and> orders_by_symbol (state_of (cancel_order 9 book_resting ''s1'' ''A'')) ''X/Y''
             = \<lparr>buy_orders = [0, 1], sell_orders = [3, 4]\<rparr>
         \<and> order_books (state_of (cancel_order 9 book_resting ''s1'' ''A'')) ''X/Y''
             = Some \<lparr>ob_symbol = ''X/Y'', bids = [(99, 1), (98, 2)],
                     asks = [(101, 1), (102, 3)], last_updated = 9\<rparr>"
  proof -
    from t[where k = "''s1''" and now = 9 and u = "''A''", THEN conjunct2, rule_format,
            OF f(2), THEN conjunct2, rule_format, OF conjI[OF f(3) disjI1[OF f(4)]]]
    obtain S' ob where c: "cancel_order 9 book_resting ''s1'' ''A'' = Inr (True, S')"
      and o: "objects S' = (objects book_resting)(2 := (objects book_resting 2)
                 \<lparr>status := CANCELLED, updated_at := 9\<rparr>)"
      and l: "orders_by_symbol S' = (orders_by_symbol book_resting)
                (symbol (objects book_resting 2) :=
                   (if side (objects book_resting 2) = BUY
                    then (orders_by_symbol book_resting (symbol (objects book_resting 2)))
                           \<lparr>buy_orders := filter (\<lambda>x. oid (objects book_resting x) \<noteq> ''s1'')
                              (buy_orders (orders_by_symbol book_resting
                                 (symbol (objects book_resting 2))))\<rparr>
                    else (orders_by_symbol book_resting (symbol (objects book_resting 2)))
                           \<lparr>sell_orders := filter (\<lambda>x. oid (objects book_resting x) \<noteq> ''s1'')
                              (sell_orders (orders_by_symbol book_resting
                                 (symbol (objects book_resting 2))))\<rparr>))"
      and b0: "order_books book_resting (symbol (objects book_resting 2)) = Some ob"
      and b1: "order_books S' = (order_books book_resting)(symbol (objects book_resting 2) \<mapsto>
                        ob\<lparr>bids := snapshot_bids S' (symbol (objects book_resting 2)),
                           asks := snapshot_asks S' (symbol (objects book_resting 2)),
                           last_updated := 9\<rparr>)"
      by (elim exE conjE) (rule that; assumption)
    have st: "state_of (cancel_order 9 book_resting ''s1'' ''A'') = S'"
      by (simp add: c)
    have ob: "ob = \<lparr>ob_symbol = ''X/Y'', bids = [(99, 1), (98, 2)],
                    asks = [(101, 2), (102, 3)], last_updated = 5\<rparr>"
      using b0 unfolding sy f(7) by simp
    have l': "orders_by_symbol S' ''X/Y'' = \<lparr>buy_orders = [0, 1], sell_orders = [3, 4]\<rparr>"
      unfolding l sy by (simp add: book_resting_state fs)
    have o1: "status (objects S' 2) = CANCELLED" "updated_at (objects S' 2) = 9"
      by (simp_all add: o)
    have sb: "snapshot_bids S' ''X/Y'' = [(99, 1), (98, 2)]"
      unfolding snapshot_bids_def l' o by (simp add: book_resting_state fs add_level_def)
    have sa: "snapshot_asks S' ''X/Y'' = [(101, 1), (102, 3)]"
      unfolding snapshot_asks_def l' o by (simp add: book_resting_state fs add_level_def)
    have b': "order_books S' ''X/Y''
             = Some \<lparr>ob_symbol = ''X/Y'', bids = [(99, 1), (98, 2)],
                     asks = [(101, 1), (102, 3)], last_updated = 9\<rparr>"
      unfolding b1 sy sb sa ob by simp
    show ?thesis unfolding st using c l' o1 b' by simp
  qed
  have d: "cancel_order 9 book_resting ''b2'' ''D''
             = Inr (True, state_of (cancel_order 9 book_resting ''b2'' ''D''))
         \<and> status (objects (state_of (cancel_order 9 book_resting ''b2'' ''D'')) 1) = CANCELLED
         \<and> orders_by_symbol (state_of (cancel_order 9 book_resting ''b2'' ''D'')) ''X/Y''
             = \<lparr>buy_orders = [0], sell_orders = [2, 3, 4]\<rparr>
         \<and> order_books (state_of (cancel_order 9 book_resting ''b2'' ''D'')) ''X/Y''
             = Some \<lparr>ob_symbol = ''X/Y'', bids = [(99, 1)], asks = [(101, 2), (102, 3)],
                     last_updated = 9\<rparr>"
  proof -
    from t[where k = "''b2''" and now = 9 and u = "''D''", THEN conjunct2, rule_format,
            OF f(8), THEN conjunct2, rule_format, OF conjI[OF f(9) disjI1[OF f(10)]]]
    obtain S' ob where c: "cancel_order 9 book_resting ''b2'' ''D'' = Inr (True, S')"
      and o: "objects S' = (objects book_resting)(1 := (objects book_resting 1)
                 \<lparr>status := CANCELLED, updated_at := 9\<rparr>)"
      and l: "orders_by_symbol S' = (orders_by_symbol book_resting)
                (symbol (objects book_resting 1) :=
                   (if side (objects book_resting 1) = BUY
                    then (orders_by_symbol book_resting (symbol (objects book_resting 1)))
                           \<lparr>buy_orders := filter (\<lambda>x. oid (objects book_resting x) \<noteq> ''b2'')
                              (buy_orders (orders_by_symbol book_resting
                                 (symbol (objects book_resting 1))))\<rparr>
                    else (orders_by_symbol book_resting (symbol (objects book_resting 1)))
                           \<lparr>sell_orders := filter (\<lambda>x. oid (objects book_resting x) \<noteq> ''b2'')
                              (sell_orders (orders_by_symbol book_resting
                                 (symbol (objects book_resting 1))))\<rparr>))"
      and b0: "order_books book_resting (symbol (objects book_resting 1)) = Some ob"
      and b1: "order_books S' = (order_books book_resting)(symbol (objects book_resting 1) \<mapsto>
                        ob\<lparr>bids := snapshot_bids S' (symbol (objects book_resting 1)),
                           asks := snapshot_asks S' (symbol (objects book_resting 1)),
                           last_updated := 9\<rparr>)"
      by (elim exE conjE) (rule that; assumption)
    have st: "state_of (cancel_order 9 book_resting ''b2'' ''D'') = S'"
      by (simp add: c)
    have ob: "ob = \<lparr>ob_symbol = ''X/Y'', bids = [(99, 1), (98, 2)],
                    asks = [(101, 2), (102, 3)], last_updated = 5\<rparr>"
      using b0 unfolding sy f(7) by simp
    have l': "orders_by_symbol S' ''X/Y'' = \<lparr>buy_orders = [0], sell_orders = [2, 3, 4]\<rparr>"
      unfolding l sy by (simp add: book_resting_state fs)
    have o1: "status (objects S' 1) = CANCELLED"
      by (simp_all add: o)
    have sb: "snapshot_bids S' ''X/Y'' = [(99, 1)]"
      unfolding snapshot_bids_def l' o by (simp add: book_resting_state fs add_level_def)
    have sa: "snapshot_asks S' ''X/Y'' = [(101, 2), (102, 3)]"
      unfolding snapshot_asks_def l' o by (simp add: book_resting_state fs add_level_def)
    have b': "order_books S' ''X/Y''
             = Some \<lparr>ob_symbol = ''X/Y'', bids = [(99, 1)],
                     asks = [(101, 2), (102, 3)], last_updated = 9\<rparr>"
      unfolding b1 sy sb sa ob by simp
    show ?thesis unfolding st using c l' o1 b' by simp
  qed
  have p: "cancel_order 9 partial_resting ''s1'' ''A''
             = Inr (True, state_of (cancel_order 9 partial_resting ''s1'' ''A''))
         \<and> status (objects (state_of (cancel_order 9 partial_resting ''s1'' ''A'')) 0) = CANCELLED
         \<and> sell_orders (orders_by_symbol (state_of (cancel_order 9 partial_resting ''s1'' ''A''))
              ''X/Y'') = []"
  proof -
    from cancel_order_contract[OF partial_resting_def, where k = "''s1''" and now = 9
            and u = "''A''", THEN conjunct2, rule_format, OF g(1), THEN conjunct2,
            rule_format, OF conjI[OF g(2) disjI2[OF g(3)]]]
    obtain S' where c: "cancel_order 9 partial_resting ''s1'' ''A'' = Inr (True, S')"
      and o: "objects S' = (objects partial_resting)(0 := (objects partial_resting 0)
                 \<lparr>status := CANCELLED, updated_at := 9\<rparr>)"
      and l: "orders_by_symbol S' = (orders_by_symbol partial_resting)
                (symbol (objects partial_resting 0) :=
                   (if side (objects partial_resting 0) = BUY
                    then (orders_by_symbol partial_resting (symbol (objects partial_resting 0)))
                           \<lparr>buy_orders := filter (\<lambda>x. oid (objects partial_resting x) \<noteq> ''s1'')
                              (buy_orders (orders_by_symbol partial_resting
                                 (symbol (objects partial_resting 0))))\<rparr>
                    else (orders_by_symbol partial_resting (symbol (objects partial_resting 0)))
                           \<lparr>sell_orders := filter (\<lambda>x. oid (objects partial_resting x) \<noteq> ''s1'')
                              (sell_orders (orders_by_symbol partial_resting
                                 (symbol (objects partial_resting 0))))\<rparr>))"
      by (elim exE conjE) (rule that; assumption)
    have st: "state_of (cancel_order 9 partial_resting ''s1'' ''A'') = S'"
      by (simp add: c)
    have l': "sell_orders (orders_by_symbol S' ''X/Y'') = []"
      unfolding l g(4) g(5) by (simp add: g(6) g(7))
    have o1: "status (objects S' 0) = CANCELLED"
      by (simp_all add: o)
    show ?thesis unfolding st using c l' o1 by simp
  qed
  show ?thesis
    by (intro conjI f(1,2,3,4,6,7,8,9,10) a b g(1,2,3) h z
        s[THEN conjunct1] s[THEN conjunct2, THEN conjunct1]
        s[THEN conjunct2, THEN conjunct2, THEN conjunct1]
        s[THEN conjunct2, THEN conjunct2, THEN conjunct2, THEN conjunct1]
        s[THEN conjunct2, THEN conjunct2, THEN conjunct2, THEN conjunct2]
        d[THEN conjunct1] d[THEN conjunct2, THEN conjunct1]
        d[THEN conjunct2, THEN conjunct2, THEN conjunct1]
        d[THEN conjunct2, THEN conjunct2, THEN conjunct2]
        p[THEN conjunct1] p[THEN conjunct2, THEN conjunct1] p[THEN conjunct2, THEN conjunct2])
qed

subsection \<open>C8: market data\<close>




subsection \<open>C9: no trade between crossing limit orders\<close>

text \<open>
  Claim C9. In every state that the engine reaches from a new engine, after any
  history of submissions and cancellations (including the calls that raised), every
  trade of the trade history is between a buy order and a sell order for which it is
  not the case that both are limit orders and the buy price is strictly less than the
  sell price. The orders are named by the store \<open>h0\<close> of the orders as they were
  submitted: type and price are never assigned by the engine.
\<close>

theorem no_crossing_trades:
  "\<forall>t\<in>set (trades (run cmds (new_engine h0))).
     \<exists>b a. side (h0 b) = BUY \<and> side (h0 a) = SELL
          \<and> buy_order_id t = oid (h0 b) \<and> sell_order_id t = oid (h0 a)
          \<and> \<not> (order_type (h0 b) = LIMIT \<and> order_type (h0 a) = LIMIT
                \<and> (\<exists>pb ps. price (h0 b) = Some pb \<and> price (h0 a) = Some ps \<and> pb < ps))"
proof
  fix t assume "t \<in> set (trades (run cmds (new_engine h0)))"
  from inv_tradesD[OF inv_run this] obtain b a where
    "side (h0 b) = BUY" "side (h0 a) = SELL" "trade_between t (h0 b) (h0 a)"
    "price_matches (h0 b) (h0 a)"
    by blast
  then show "\<exists>b a. side (h0 b) = BUY \<and> side (h0 a) = SELL
          \<and> buy_order_id t = oid (h0 b) \<and> sell_order_id t = oid (h0 a)
          \<and> \<not> (order_type (h0 b) = LIMIT \<and> order_type (h0 a) = LIMIT
                \<and> (\<exists>pb ps. price (h0 b) = Some pb \<and> price (h0 a) = Some ps \<and> pb < ps))"
    using price_matches_not_crossing[of "h0 b" "h0 a"]
    by (intro exI[of _ b] exI[of _ a]) (simp add: trade_between_def)
qed

text \<open>
  The history of the partial fill has one trade, between the buy and the sell at 100.
\<close>

theorem no_crossing_trades_witness:
  "trades (run [Submit 1 0, Submit 2 1] (new_engine orders_partial)) \<noteq> []
   \<and> (\<exists>b a. side (orders_partial b) = BUY \<and> side (orders_partial a) = SELL
          \<and> buy_order_id (hd (trades (run [Submit 1 0, Submit 2 1] (new_engine orders_partial))))
              = oid (orders_partial b)
          \<and> sell_order_id (hd (trades (run [Submit 1 0, Submit 2 1] (new_engine orders_partial))))
              = oid (orders_partial a)
          \<and> \<not> (order_type (orders_partial b) = LIMIT \<and> order_type (orders_partial a) = LIMIT
                \<and> (\<exists>pb ps. price (orders_partial b) = Some pb
                       \<and> price (orders_partial a) = Some ps \<and> pb < ps)))"
proof -
  have ne: "trades (run [Submit 1 0, Submit 2 1] (new_engine orders_partial)) \<noteq> []"
    by (simp add: engine_defs orders_partial_def)
  then have "hd (trades (run [Submit 1 0, Submit 2 1] (new_engine orders_partial)))
               \<in> set (trades (run [Submit 1 0, Submit 2 1] (new_engine orders_partial)))"
    by (rule hd_in_set)
  from no_crossing_trades[of "[Submit 1 0, Submit 2 1]" orders_partial, rule_format, OF this]
  show ?thesis
    by (intro conjI ne)
qed

subsection \<open>C10: the order store holds exactly the accepted orders\<close>

text \<open>
  Claim C10. Let \<open>S\<close> be the state after any history of submissions and
  cancellations of a new engine. Every order that \<open>active_orders\<close> holds, hence every
  order that \<open>get_order\<close> returns, is stored under its own id, passed validation and was
  submitted. Every submitted order that passes validation stays retrievable by
  \<open>get_order\<close> and is listed by \<open>get_user_orders\<close> for its user, whatever happened to
  it later (fills, cancellation, calls that raised), provided no other submitted order
  object carries the same id: ids are unique in the data model, and the dictionary
  \<open>active_orders\<close> keeps one order per id. An order that fails validation is returned
  neither by \<open>get_order\<close> nor by \<open>get_user_orders\<close>.
\<close>

theorem stored_iff_accepted:
  assumes S: "S = run cmds (new_engine h0)"
  shows "(\<forall>k a. map_of (active_orders S) k = Some a \<longrightarrow>
             get_order S k = Some (objects S a) \<and> oid (h0 a) = k \<and> validate_order (h0 a)
             \<and> (\<exists>now. Submit now a \<in> set cmds))
       \<and> (\<forall>now a. Submit now a \<in> set cmds \<and> validate_order (h0 a)
             \<and> (\<forall>now' a'. Submit now' a' \<in> set cmds \<and> oid (h0 a') = oid (h0 a) \<longrightarrow> a' = a)
             \<longrightarrow> get_order S (oid (h0 a)) = Some (objects S a)
                 \<and> objects S a \<in> set (get_user_orders S (user_id (h0 a))))
       \<and> (\<forall>a. \<not> validate_order (h0 a) \<longrightarrow>
             (\<forall>k. get_order S k \<noteq> Some (objects S a))
             \<and> (\<forall>u. objects S a \<notin> set (get_user_orders S u)))"
proof (intro conjI allI impI)
  fix k a assume m: "map_of (active_orders S) k = Some a"
  then show "get_order S k = Some (objects S a)" by (simp add: get_order_def)
  have "(k, a) \<in> set (active_orders S)" using m by (rule map_of_SomeD)
  from inv_activeD[OF inv_run this[unfolded S]]
  show "oid (h0 a) = k" and "validate_order (h0 a)" by simp_all
  show "\<exists>now. Submit now a \<in> set cmds"
    using stored_was_submitted m unfolding S by blast
next
  fix now a
  assume h: "Submit now a \<in> set cmds \<and> validate_order (h0 a)
             \<and> (\<forall>now' a'. Submit now' a' \<in> set cmds \<and> oid (h0 a') = oid (h0 a) \<longrightarrow> a' = a)"
  then have m: "map_of (active_orders S) (oid (h0 a)) = Some a"
    unfolding S using accepted_stays_stored by blast
  then show "get_order S (oid (h0 a)) = Some (objects S a)" by (simp add: get_order_def)
  have "(oid (h0 a), a) \<in> set (active_orders S)" using m by (rule map_of_SomeD)
  then have "objects S a \<in> set (map (\<lambda>(k, a). objects S a) (active_orders S))"
    by force
  then show "objects S a \<in> set (get_user_orders S (user_id (h0 a)))"
    by (simp add: get_user_orders_def S)
next
  fix a k assume nv: "\<not> validate_order (h0 a)"
  show "get_order S k \<noteq> Some (objects S a)"
  proof
    assume "get_order S k = Some (objects S a)"
    then obtain x where x: "map_of (active_orders S) k = Some x" "objects S x = objects S a"
      by (auto simp: get_order_def)
    have "(k, x) \<in> set (active_orders S)" using x(1) by (rule map_of_SomeD)
    from inv_activeD[OF inv_run this[unfolded S]] have "validate_order (h0 x)" by simp
    then have "validate_order (objects S x)" by (simp add: S)
    then have "validate_order (objects S a)" using x(2) by simp
    then have "validate_order (h0 a)" by (simp add: S)
    then show False using nv by simp
  qed
next
  fix a u assume nv: "\<not> validate_order (h0 a)"
  show "objects S a \<notin> set (get_user_orders S u)"
  proof
    assume "objects S a \<in> set (get_user_orders S u)"
    then obtain k x where x: "(k, x) \<in> set (active_orders S)" "objects S x = objects S a"
      by (auto simp: get_user_orders_def)
    from inv_activeD[OF inv_run x(1)[unfolded S]] have "validate_order (h0 x)" by simp
    then have "validate_order (objects S x)" by (simp add: S)
    then have "validate_order (objects S a)" using x(2) by simp
    then have "validate_order (h0 a)" by (simp add: S)
    then show False using nv by simp
  qed
qed

text \<open>
  In the example history the buy is filled, the sell is partially filled and then
  cancelled, and the order of quantity 0 is rejected: the first two are retrievable,
  the third is not.
\<close>

theorem stored_iff_accepted_witness:
  "Submit 2 1 \<in> set lifecycle \<and> validate_order (orders_lifecycle 1)
   \<and> Submit 1 0 \<in> set lifecycle \<and> validate_order (orders_lifecycle 0)
   \<and> map (\<lambda>a. oid (orders_lifecycle a)) [0, 1, 2] = [''s1'', ''b1'', ''z1'']
   \<and> \<not> validate_order (orders_lifecycle 2)
   \<and> map_of (active_orders (run lifecycle (new_engine orders_lifecycle))) ''s1'' = Some 0
   \<and> status (objects (run lifecycle (new_engine orders_lifecycle)) 1) = FILLED
   \<and> status (objects (run lifecycle (new_engine orders_lifecycle)) 0) = CANCELLED
   \<and> status (objects (run lifecycle (new_engine orders_lifecycle)) 2) = REJECTED
   \<and> get_order (run lifecycle (new_engine orders_lifecycle)) ''b1''
        = Some (objects (run lifecycle (new_engine orders_lifecycle)) 1)
   \<and> get_order (run lifecycle (new_engine orders_lifecycle)) ''s1''
        = Some (objects (run lifecycle (new_engine orders_lifecycle)) 0)
   \<and> objects (run lifecycle (new_engine orders_lifecycle)) 0
        \<in> set (get_user_orders (run lifecycle (new_engine orders_lifecycle)) ''A'')
   \<and> get_order (run lifecycle (new_engine orders_lifecycle)) ''z1'' = None
   \<and> objects (run lifecycle (new_engine orders_lifecycle)) 2
        \<notin> set (get_user_orders (run lifecycle (new_engine orders_lifecycle)) ''B'')"
proof -
  have ids: "\<And>a'. oid (orders_lifecycle a') = ''b1'' \<Longrightarrow> a' = 1"
            "\<And>a'. oid (orders_lifecycle a') = ''s1'' \<Longrightarrow> a' = 0"
    by (simp_all add: orders_lifecycle_def store_def new_order_def nth_Cons' split: if_splits)
  have h: "Submit 2 1 \<in> set lifecycle" "validate_order (orders_lifecycle 1)"
      "Submit 1 0 \<in> set lifecycle" "validate_order (orders_lifecycle 0)"
      "\<not> validate_order (orders_lifecycle 2)"
    by (simp_all add: lifecycle_def orders_lifecycle_def store_def new_order_def
          validate_order_def price_invalid_def)
  have e: "oid (orders_lifecycle 1) = ''b1''" "oid (orders_lifecycle 0) = ''s1''"
      "user_id (orders_lifecycle 0) = ''A''"
    by (simp_all add: orders_lifecycle_def store_def new_order_def)
  have u1: "\<forall>now' a'. Submit now' a' \<in> set lifecycle
          \<and> oid (orders_lifecycle a') = oid (orders_lifecycle 1) \<longrightarrow> a' = 1"
  proof (intro allI impI)
    fix now' :: timestamp and a' :: addr
    assume "Submit now' a' \<in> set lifecycle
          \<and> oid (orders_lifecycle a') = oid (orders_lifecycle 1)"
    then have "oid (orders_lifecycle a') = ''b1''" unfolding e(1) by (rule conjunct2)
    then show "a' = 1" by (rule ids(1))
  qed
  have u0: "\<forall>now' a'. Submit now' a' \<in> set lifecycle
          \<and> oid (orders_lifecycle a') = oid (orders_lifecycle 0) \<longrightarrow> a' = 0"
  proof (intro allI impI)
    fix now' :: timestamp and a' :: addr
    assume "Submit now' a' \<in> set lifecycle
          \<and> oid (orders_lifecycle a') = oid (orders_lifecycle 0)"
    then have "oid (orders_lifecycle a') = ''s1''" unfolding e(2) by (rule conjunct2)
    then show "a' = 0" by (rule ids(2))
  qed
  have st: "status (objects (run lifecycle (new_engine orders_lifecycle)) 1) = FILLED"
      "status (objects (run lifecycle (new_engine orders_lifecycle)) 0) = CANCELLED"
      "status (objects (run lifecycle (new_engine orders_lifecycle)) 2) = REJECTED"
      "map_of (active_orders (run lifecycle (new_engine orders_lifecycle))) ''s1'' = Some 0"
      "get_order (run lifecycle (new_engine orders_lifecycle)) ''z1'' = None"
    by (simp_all add: engine_defs lifecycle_def orders_lifecycle_def get_order_def)
  note t = stored_iff_accepted[OF refl, of lifecycle orders_lifecycle]
  note t2 = t[THEN conjunct2, THEN conjunct1, rule_format]
  note t3 = t[THEN conjunct2, THEN conjunct2, rule_format]
  have c1: "Submit 2 1 \<in> set lifecycle \<and> validate_order (orders_lifecycle 1)
             \<and> (\<forall>now' a'. Submit now' a' \<in> set lifecycle
                   \<and> oid (orders_lifecycle a') = oid (orders_lifecycle 1) \<longrightarrow> a' = 1)"
    by (intro conjI h(1) h(2) u1)
  have c0: "Submit 1 0 \<in> set lifecycle \<and> validate_order (orders_lifecycle 0)
             \<and> (\<forall>now' a'. Submit now' a' \<in> set lifecycle
                   \<and> oid (orders_lifecycle a') = oid (orders_lifecycle 0) \<longrightarrow> a' = 0)"
    by (intro conjI h(3) h(4) u0)
  have g1: "get_order (run lifecycle (new_engine orders_lifecycle)) ''b1''
        = Some (objects (run lifecycle (new_engine orders_lifecycle)) 1)"
    using t2[OF c1, THEN conjunct1] unfolding e(1) .
  have g0: "get_order (run lifecycle (new_engine orders_lifecycle)) ''s1''
        = Some (objects (run lifecycle (new_engine orders_lifecycle)) 0)"
    using t2[OF c0, THEN conjunct1] unfolding e(2) .
  have g0': "objects (run lifecycle (new_engine orders_lifecycle)) 0
        \<in> set (get_user_orders (run lifecycle (new_engine orders_lifecycle)) ''A'')"
    using t2[OF c0, THEN conjunct2] unfolding e(3) .
  have g2: "objects (run lifecycle (new_engine orders_lifecycle)) 2
        \<notin> set (get_user_orders (run lifecycle (new_engine orders_lifecycle)) ''B'')"
    using t3[OF h(5), THEN conjunct2, rule_format] .
  have i: "map (\<lambda>a. oid (orders_lifecycle a)) [0, 1, 2] = [''s1'', ''b1'', ''z1'']"
    by (simp add: orders_lifecycle_def store_def new_order_def)
  show ?thesis
    by (intro conjI h i st g1 g0 g0' g2)
qed

end
